theory Spec2Isabelle
  imports Complex_Main "HOL-Library.Multiset"
begin

section \<open>Data model of the rendering pipeline\<close>

text \<open>
  A JavaScript number is a finite value, one of the two infinities, or \<open>NaN\<close>. The
  finite values are modelled as real numbers: the rounding error and the overflow of
  doubles and the sign of zero are outside the model; \<open>NaN\<close> and the infinities are in
  it, with the arithmetic and the comparisons that the language gives them.
\<close>

datatype number = Fin real | PosInf | NegInf | NaN

text \<open>The operator \<open>-\<close> on numbers.\<close>

fun num_sub :: "number \<Rightarrow> number \<Rightarrow> number" where
  "num_sub NaN b = NaN"
| "num_sub a NaN = NaN"
| "num_sub (Fin a) (Fin b) = Fin (a - b)"
| "num_sub (Fin a) PosInf = NegInf"
| "num_sub (Fin a) NegInf = PosInf"
| "num_sub PosInf PosInf = NaN"
| "num_sub PosInf b = PosInf"
| "num_sub NegInf NegInf = NaN"
| "num_sub NegInf b = NegInf"

text \<open>The operators \<open><\<close>, \<open><=\<close> and \<open>>=\<close> on numbers: false as soon as one side is \<open>NaN\<close>.\<close>

fun num_lt :: "number \<Rightarrow> number \<Rightarrow> bool" where
  "num_lt NaN b = False"
| "num_lt a NaN = False"
| "num_lt (Fin a) (Fin b) = (a < b)"
| "num_lt a NegInf = False"
| "num_lt NegInf b = True"
| "num_lt PosInf b = False"
| "num_lt a PosInf = True"

definition num_le :: "number \<Rightarrow> number \<Rightarrow> bool" where
  "num_le a b \<longleftrightarrow> a \<noteq> NaN \<and> b \<noteq> NaN \<and> (a = b \<or> num_lt a b)"


record point =
  p_x :: number
  p_y :: number
  p_z :: number

text \<open>
  The render data of a surface in one space (\<open>renderModel.transformed\<close>,
  \<open>renderModel.projected\<close>): its points, its normal and its barycenter.
\<close>

record render_data =
  points :: "point list"
  normal :: point
  barycenter :: point

text \<open>
  A material is the object whose \<open>render(lights, shader, renderData)\<close> method the scene
  calls; lights, shader and the shading result are opaque to the pipeline
  (type variables \<open>'l\<close>, \<open>'sh\<close>, \<open>'c\<close>).
\<close>

type_synonym ('l, 'sh, 'c) material = "'l list \<Rightarrow> 'sh \<Rightarrow> render_data \<Rightarrow> 'c"

text \<open>
  The fields of \<open>Surface\<close> that \<open>Scene\<close> reads: \<open>id\<close>, \<open>cullBackfaces\<close>,
  \<open>fillMaterial\<close>, \<open>strokeMaterial\<close> (\<open>None\<close> is JavaScript's null or undefined),
  and the surface-local points and normal from which the render model is computed.
\<close>

record ('l, 'sh, 'c) surface =
  surface_id :: nat
  surface_points :: "point list"
  surface_normal :: point
  surface_cullBackfaces :: bool
  fillMaterial :: "('l, 'sh, 'c) material option"
  strokeMaterial :: "('l, 'sh, 'c) material option"

record ('l, 'sh, 'c) shape =
  surfaces :: "('l, 'sh, 'c) surface list"

text \<open>
  A \<open>RenderModel\<close> object. The matrices \<open>'m\<close> it was built from are kept as the values
  they had at the call; \<open>fill\<close> and \<open>stroke\<close> are \<open>None\<close> while undefined.
\<close>

record ('m, 'l, 'sh, 'c) render_model =
  rm_surface :: "('l, 'sh, 'c) surface"
  rm_transform :: 'm
  rm_projection :: 'm
  rm_viewport :: 'm
  transformed :: render_data
  projected :: render_data
  inFrustrum :: bool
  fill :: "'c option"
  stroke :: "'c option"

text \<open>
  Camera and viewport hold references to \<open>Matrix\<close> objects: addresses into the matrix
  store.
\<close>

record camera =
  cam_m :: nat
  cam_projection :: nat

record viewport =
  prescale :: nat
  postscale :: nat

text \<open>
  The public fields of \<open>Scene\<close>. The root \<open>model\<close> is represented by what its walker
  \<open>eachRenderable\<close> does with the shape visitor: the sequence of calls
  \<open>(shape, lights, transform)\<close> it makes, in order. The light visitor only builds a
  \<open>LightRenderModel\<close> for the walker and touches no state of the scene.
\<close>

record ('m, 'l, 'sh, 'c) scene =
  model :: "(('l, 'sh, 'c) shape \<times> 'l list \<times> 'm) list"
  camera :: camera
  viewport :: viewport
  shader :: 'sh
  cullBackfaces :: bool
  fractionalPoints :: bool
  cache :: bool

text \<open>
  The mutable objects: the \<open>Matrix\<close> objects and the \<open>RenderModel\<close> objects, each store
  a list indexed by address (allocation appends), and the scene's private
  \<open>_renderModelCache\<close>, an object keyed by surface id whose values are references to
  render models.
\<close>

record ('m, 'l, 'sh, 'c) store =
  matrices :: "'m list"
  renderModels :: "('m, 'l, 'sh, 'c) render_model list"
  renderModelCache :: "nat \<rightharpoonup> nat"

text \<open>
  The collaborators whose code is outside the pipeline: the product that
  \<open>a.multiply(b)\<close> leaves in \<open>a\<close>, and the geometry that a \<open>RenderModel\<close> derives from
  its surface, transform, projection and viewport: transformed data, projected data and
  the frustum flag.
\<close>

record ('m, 'l, 'sh, 'c) externals =
  matrix_product :: "'m \<Rightarrow> 'm \<Rightarrow> 'm"
  geometry :: "('l, 'sh, 'c) surface \<Rightarrow> 'm \<Rightarrow> 'm \<Rightarrow> 'm \<Rightarrow> render_data \<times> render_data \<times> bool"

section \<open>Matrix and Point operations\<close>

text \<open>
  Modelled from the spec: \<open>Matrix.copy\<close> is absent from the sources. By the spec's
  clone-then-mutate discipline it allocates a new matrix object holding the receiver's
  value and leaves every existing object alone; it returns the new reference.
\<close>

definition Matrix_copy ::
  "('m, 'l, 'sh, 'c) store \<Rightarrow> nat \<Rightarrow> nat \<times> ('m, 'l, 'sh, 'c) store" where
  "Matrix_copy st a =
     (length (matrices st), st\<lparr>matrices := matrices st @ [matrices st ! a]\<rparr>)"

text \<open>
  Modelled from the spec: \<open>Matrix.multiply\<close> is absent from the sources. The call
  \<open>a.multiply(b)\<close> composes in place: it overwrites the receiver \<open>a\<close> with the product
  of \<open>a\<close> and \<open>b\<close> and returns \<open>a\<close>, so that calls chain.
\<close>

definition Matrix_multiply ::
  "('m, 'l, 'sh, 'c) externals \<Rightarrow> ('m, 'l, 'sh, 'c) store \<Rightarrow> nat \<Rightarrow> nat \<Rightarrow>
     ('m, 'l, 'sh, 'c) store" where
  "Matrix_multiply E st a b =
     st\<lparr>matrices := (matrices st)[a := matrix_product E (matrices st ! a) (matrices st ! b)]\<rparr>"

text \<open>
  \<open>Math.round\<close>: the nearest integer, a tie going up; \<open>NaN\<close> and the infinities are
  returned as they are.
\<close>

fun Math_round :: "number \<Rightarrow> number" where
  "Math_round (Fin v) = Fin (of_int \<lfloor>v + 1 / 2\<rfloor>)"
| "Math_round v = v"

text \<open>
  Modelled from the spec: \<open>Point.round\<close> is absent from the sources. It rounds each
  coordinate of the point to the nearest integer, in place.
\<close>

definition Point_round :: "point \<Rightarrow> point" where
  "Point_round p = p\<lparr>p_x := Math_round (p_x p), p_y := Math_round (p_y p), p_z := Math_round (p_z p)\<rparr>"

section \<open>RenderModel\<close>

text \<open>
  Modelled from the spec: the class \<open>RenderModel\<close> is absent from the sources. Its
  constructor keeps the surface and the three matrices and computes the transformed
  geometry, the projected geometry and the frustum flag; no shading result is set yet.
\<close>

definition new_RenderModel ::
  "('m, 'l, 'sh, 'c) externals \<Rightarrow> ('l, 'sh, 'c) surface \<Rightarrow> 'm \<Rightarrow> 'm \<Rightarrow> 'm \<Rightarrow>
     ('m, 'l, 'sh, 'c) render_model" where
  "new_RenderModel E s t p v =
     (case geometry E s t p v of (tr, pr, fr) \<Rightarrow>
        \<lparr>rm_surface = s, rm_transform = t, rm_projection = p, rm_viewport = v,
         transformed = tr, projected = pr, inFrustrum = fr, fill = None, stroke = None\<rparr>)"

text \<open>
  Modelled from the spec: \<open>RenderModel.update\<close> is absent from the sources. It replaces
  the stored transform, projection and viewport and recomputes the derived geometry of
  the record's own surface in place; earlier shading results stay until overwritten.
\<close>

definition RenderModel_update ::
  "('m, 'l, 'sh, 'c) externals \<Rightarrow> ('m, 'l, 'sh, 'c) render_model \<Rightarrow> 'm \<Rightarrow> 'm \<Rightarrow> 'm \<Rightarrow>
     ('m, 'l, 'sh, 'c) render_model" where
  "RenderModel_update E rm t p v =
     (case geometry E (rm_surface rm) t p v of (tr, pr, fr) \<Rightarrow>
        rm\<lparr>rm_transform := t, rm_projection := p, rm_viewport := v,
           transformed := tr, projected := pr, inFrustrum := fr\<rparr>)"

section \<open>Scene\<close>

text \<open>
  \<open>Scene._renderSurface\<close>: without the cache a new render model every call; with it,
  the slot of the surface's id is created on a miss and updated in place on a hit. The
  result is the reference to the render model and the store after the call.
\<close>

definition renderSurface ::
  "('m, 'l, 'sh, 'c) externals \<Rightarrow> ('m, 'l, 'sh, 'c) scene \<Rightarrow> ('l, 'sh, 'c) surface \<Rightarrow>
     'm \<Rightarrow> 'm \<Rightarrow> 'm \<Rightarrow> ('m, 'l, 'sh, 'c) store \<Rightarrow> nat \<times> ('m, 'l, 'sh, 'c) store" where
  "renderSurface E sc s t p v st =
     (if \<not> cache sc then
        (length (renderModels st),
         st\<lparr>renderModels := renderModels st @ [new_RenderModel E s t p v]\<rparr>)
      else
        (case renderModelCache st (surface_id s) of
           None \<Rightarrow>
             (length (renderModels st),
              st\<lparr>renderModels := renderModels st @ [new_RenderModel E s t p v],
                 renderModelCache := (renderModelCache st)(surface_id s \<mapsto> length (renderModels st))\<rparr>)
         | Some a \<Rightarrow>
             (a, st\<lparr>renderModels :=
                     (renderModels st)[a := RenderModel_update E (renderModels st ! a) t p v]\<rparr>)))"

text \<open>The visibility test of \<open>render\<close> on the render model just built or updated.\<close>

definition is_visible ::
  "('m, 'l, 'sh, 'c) scene \<Rightarrow> ('l, 'sh, 'c) surface \<Rightarrow> ('m, 'l, 'sh, 'c) render_model \<Rightarrow> bool" where
  "is_visible sc s rm \<longleftrightarrow>
     (\<not> cullBackfaces sc \<or> \<not> surface_cullBackfaces s \<or>
      num_lt (p_z (normal (projected rm))) (Fin 0)) \<and>
     inFrustrum rm"

text \<open>
  What \<open>render\<close> does to a visible render model: fill, then stroke, each from the
  surface's material if there is one, then the rounding of the projected points unless
  \<open>fractionalPoints\<close> is true.
\<close>

definition shade_and_round ::
  "('m, 'l, 'sh, 'c) scene \<Rightarrow> 'l list \<Rightarrow> ('l, 'sh, 'c) surface \<Rightarrow>
     ('m, 'l, 'sh, 'c) render_model \<Rightarrow> ('m, 'l, 'sh, 'c) render_model" where
  "shade_and_round sc lights s rm =
     (let rm1 = rm\<lparr>fill := (case fillMaterial s of
                               None \<Rightarrow> None
                             | Some mat \<Rightarrow> Some (mat lights (shader sc) (transformed rm)))\<rparr>;
          rm2 = rm1\<lparr>stroke := (case strokeMaterial s of
                                 None \<Rightarrow> None
                               | Some mat \<Rightarrow> Some (mat lights (shader sc) (transformed rm1)))\<rparr>
      in if fractionalPoints sc \<noteq> True
         then rm2\<lparr>projected := (projected rm2)\<lparr>points := map Point_round (points (projected rm2))\<rparr>\<rparr>
         else rm2)"

text \<open>
  The body of the loop over \<open>shape.surfaces\<close> in the shape visitor. The state is the
  store and the array \<open>renderModels\<close> of references pushed so far.
\<close>

definition visit_surface ::
  "('m, 'l, 'sh, 'c) externals \<Rightarrow> ('m, 'l, 'sh, 'c) scene \<Rightarrow> 'm \<Rightarrow> 'm \<Rightarrow>
     ('m, 'l, 'sh, 'c) store \<times> nat list \<Rightarrow> ('l, 'sh, 'c) surface \<times> 'l list \<times> 'm \<Rightarrow>
     ('m, 'l, 'sh, 'c) store \<times> nat list" where
  "visit_surface E sc p v acc job =
     (case acc of (st, out) \<Rightarrow> case job of (s, lights, t) \<Rightarrow>
        (case renderSurface E sc s t p v st of (a, st1) \<Rightarrow>
           let rm = renderModels st1 ! a in
           if is_visible sc s rm
           then (st1\<lparr>renderModels := (renderModels st1)[a := shade_and_round sc lights s rm]\<rparr>,
                 out @ [a])
           else (st1, out)))"

text \<open>The shape visitor: the loop over the surfaces of one shape.\<close>

definition shapeVisitor ::
  "('m, 'l, 'sh, 'c) externals \<Rightarrow> ('m, 'l, 'sh, 'c) scene \<Rightarrow> 'm \<Rightarrow> 'm \<Rightarrow>
     ('m, 'l, 'sh, 'c) store \<times> nat list \<Rightarrow> ('l, 'sh, 'c) shape \<times> 'l list \<times> 'm \<Rightarrow>
     ('m, 'l, 'sh, 'c) store \<times> nat list" where
  "shapeVisitor E sc p v acc visit =
     (case visit of (sh, lights, t) \<Rightarrow>
        foldl (\<lambda>acc' s. visit_surface E sc p v acc' (s, lights, t)) acc (surfaces sh))"

text \<open>
  The start of \<open>render\<close>: the projection is a copy of the camera's matrix, multiplied by
  the viewport's prescale and then by the camera's projection. The result is the
  reference to the new matrix and the store.
\<close>

definition compose_projection ::
  "('m, 'l, 'sh, 'c) externals \<Rightarrow> ('m, 'l, 'sh, 'c) scene \<Rightarrow> ('m, 'l, 'sh, 'c) store \<Rightarrow>
     nat \<times> ('m, 'l, 'sh, 'c) store" where
  "compose_projection E sc st =
     (case Matrix_copy st (cam_m (camera sc)) of (pa, st1) \<Rightarrow>
        (pa, Matrix_multiply E (Matrix_multiply E st1 pa (prescale (viewport sc)))
               pa (cam_projection (camera sc))))"

text \<open>
  \<open>Array.prototype.sort\<close> with a comparison function, as the language standard defines
  it. The standard's \<open>SortCompare\<close> reads a \<open>NaN\<close> result of the comparison function as
  zero. The sort is stable: an element \<open>a\<close> stays before \<open>b\<close> unless the comparison of
  \<open>a\<close> with \<open>b\<close> is positive. On a consistent comparison function every stable sort
  returns this list; on an inconsistent one the standard leaves the order to the
  implementation, and this is the order an insertion sort gives.
\<close>

definition SortCompare :: "('a \<Rightarrow> 'a \<Rightarrow> number) \<Rightarrow> 'a \<Rightarrow> 'a \<Rightarrow> number" where
  "SortCompare cmp a b = (case cmp a b of NaN \<Rightarrow> Fin 0 | v \<Rightarrow> v)"

fun insert_sorted :: "('a \<Rightarrow> 'a \<Rightarrow> number) \<Rightarrow> 'a \<Rightarrow> 'a list \<Rightarrow> 'a list" where
  "insert_sorted cmp a [] = [a]"
| "insert_sorted cmp a (b # bs) =
     (if num_le (SortCompare cmp a b) (Fin 0) then a # b # bs
      else b # insert_sorted cmp a bs)"

definition Array_sort :: "('a \<Rightarrow> 'a \<Rightarrow> number) \<Rightarrow> 'a list \<Rightarrow> 'a list" where
  "Array_sort cmp xs = foldr (insert_sorted cmp) xs []"

text \<open>
  The comparison function of \<open>render\<close>:
  \<open>(a, b) => b.projected.barycenter.z - a.projected.barycenter.z\<close>.
\<close>

definition depth_compare :: "('m, 'l, 'sh, 'c) store \<Rightarrow> nat \<Rightarrow> nat \<Rightarrow> number" where
  "depth_compare st a b =
     num_sub (p_z (barycenter (projected (renderModels st ! b))))
             (p_z (barycenter (projected (renderModels st ! a))))"

text \<open>
  The walk of \<open>render\<close>: every shape visit in order, from an empty array of render
  models.
\<close>

definition walk ::
  "('m, 'l, 'sh, 'c) externals \<Rightarrow> ('m, 'l, 'sh, 'c) scene \<Rightarrow> 'm \<Rightarrow> 'm \<Rightarrow>
     ('m, 'l, 'sh, 'c) store \<Rightarrow> ('m, 'l, 'sh, 'c) store \<times> nat list" where
  "walk E sc p v st = foldl (shapeVisitor E sc p v) (st, []) (model sc)"

text \<open>
  \<open>Scene.render\<close> up to the sort: the frame's matrices, then the walk. The viewport
  matrix is \<open>this.viewport.postscale\<close>.
\<close>

definition render_unsorted ::
  "('m, 'l, 'sh, 'c) externals \<Rightarrow> ('m, 'l, 'sh, 'c) scene \<Rightarrow> ('m, 'l, 'sh, 'c) store \<Rightarrow>
     ('m, 'l, 'sh, 'c) store \<times> nat list" where
  "render_unsorted E sc st =
     (case compose_projection E sc st of (pa, st1) \<Rightarrow>
        walk E sc (matrices st1 ! pa) (matrices st1 ! postscale (viewport sc)) st1)"

text \<open>
  \<open>Scene.render\<close>: the returned array of references to render models, sorted in place
  by the depth they have when the walk is over, and the store after the call.
\<close>

definition render ::
  "('m, 'l, 'sh, 'c) externals \<Rightarrow> ('m, 'l, 'sh, 'c) scene \<Rightarrow> ('m, 'l, 'sh, 'c) store \<Rightarrow>
     nat list \<times> ('m, 'l, 'sh, 'c) store" where
  "render E sc st =
     (case render_unsorted E sc st of
        (st2, out) \<Rightarrow> (Array_sort (depth_compare st2) out, st2))"

text \<open>\<open>Scene.flushCache\<close>: the cache becomes the empty object.\<close>

definition flushCache :: "('m, 'l, 'sh, 'c) store \<Rightarrow> ('m, 'l, 'sh, 'c) store" where
  "flushCache st = st\<lparr>renderModelCache := Map.empty\<rparr>"

section \<open>The walk as a sequence of surface visits\<close>

text \<open>
  The surface visits of one \<open>render\<close> call, in order: for every call of the shape
  visitor, every surface of the shape with the lights and the transform of that call.
\<close>

definition jobs ::
  "('m, 'l, 'sh, 'c) scene \<Rightarrow> (('l, 'sh, 'c) surface \<times> 'l list \<times> 'm) list" where
  "jobs sc =
     concat (map (\<lambda>(sh, lights, t). map (\<lambda>s. (s, lights, t)) (surfaces sh)) (model sc))"

text \<open>The loop body run over a list of surface visits.\<close>

definition run ::
  "('m, 'l, 'sh, 'c) externals \<Rightarrow> ('m, 'l, 'sh, 'c) scene \<Rightarrow> 'm \<Rightarrow> 'm \<Rightarrow>
     ('m, 'l, 'sh, 'c) store \<times> nat list \<Rightarrow> (('l, 'sh, 'c) surface \<times> 'l list \<times> 'm) list \<Rightarrow>
     ('m, 'l, 'sh, 'c) store \<times> nat list" where
  "run E sc p v acc js = foldl (visit_surface E sc p v) acc js"

text \<open>
  What the loop body leaves of the render model it got from \<open>_renderSurface\<close>: shaded
  and rounded if it passes the visibility test, untouched otherwise.
\<close>

definition settle ::
  "('m, 'l, 'sh, 'c) scene \<Rightarrow> 'l list \<Rightarrow> ('l, 'sh, 'c) surface \<Rightarrow>
     ('m, 'l, 'sh, 'c) render_model \<Rightarrow> ('m, 'l, 'sh, 'c) render_model" where
  "settle sc lights s rm = (if is_visible sc s rm then shade_and_round sc lights s rm else rm)"

text \<open>
  The record of the visits: for each surface visit, in order, the reference that
  \<open>_renderSurface\<close> returned and whether the render model passed the visibility test
  at that visit.
\<close>

fun trace ::
  "('m, 'l, 'sh, 'c) externals \<Rightarrow> ('m, 'l, 'sh, 'c) scene \<Rightarrow> 'm \<Rightarrow> 'm \<Rightarrow>
     ('m, 'l, 'sh, 'c) store \<Rightarrow> (('l, 'sh, 'c) surface \<times> 'l list \<times> 'm) list \<Rightarrow>
     (nat \<times> bool) list" where
  "trace E sc p v st [] = []"
| "trace E sc p v st (j # js) =
     (case j of (s, l, t) \<Rightarrow>
        case renderSurface E sc s t p v st of (a, st1) \<Rightarrow>
          (a, is_visible sc s (renderModels st1 ! a)))
     # trace E sc p v (fst (visit_surface E sc p v (st, []) j)) js"

text \<open>
  The matrices of a frame as \<open>render\<close> passes them on: the store after the projection
  was composed, the value of the projection, and the value of the viewport matrix.
\<close>

definition frame_store ::
  "('m, 'l, 'sh, 'c) externals \<Rightarrow> ('m, 'l, 'sh, 'c) scene \<Rightarrow> ('m, 'l, 'sh, 'c) store \<Rightarrow>
     ('m, 'l, 'sh, 'c) store" where
  "frame_store E sc st = snd (compose_projection E sc st)"

definition frame_projection ::
  "('m, 'l, 'sh, 'c) externals \<Rightarrow> ('m, 'l, 'sh, 'c) scene \<Rightarrow> ('m, 'l, 'sh, 'c) store \<Rightarrow> 'm" where
  "frame_projection E sc st =
     matrices (snd (compose_projection E sc st)) ! fst (compose_projection E sc st)"

definition frame_viewport ::
  "('m, 'l, 'sh, 'c) externals \<Rightarrow> ('m, 'l, 'sh, 'c) scene \<Rightarrow> ('m, 'l, 'sh, 'c) store \<Rightarrow> 'm" where
  "frame_viewport E sc st =
     matrices (snd (compose_projection E sc st)) ! postscale (viewport sc)"

text \<open>The record of the visits of one \<open>render\<close> call.\<close>

definition render_trace ::
  "('m, 'l, 'sh, 'c) externals \<Rightarrow> ('m, 'l, 'sh, 'c) scene \<Rightarrow> ('m, 'l, 'sh, 'c) store \<Rightarrow>
     (nat \<times> bool) list" where
  "render_trace E sc st =
     trace E sc (frame_projection E sc st) (frame_viewport E sc st) (frame_store E sc st) (jobs sc)"

text \<open>
  Visit \<open>n\<close> of a record of visits is the last one of its render model: no later visit
  returns the same reference.
\<close>

definition last_visit :: "(nat \<times> bool) list \<Rightarrow> nat \<Rightarrow> bool" where
  "last_visit tr n \<longleftrightarrow> n < length tr \<and> fst (tr ! n) \<notin> set (map fst (drop (Suc n) tr))"

section \<open>Well-formed stores\<close>

text \<open>
  References are never dangling: every cached reference is the address of a render
  model, and the matrices of camera and viewport are allocated.
\<close>

definition cache_valid :: "('m, 'l, 'sh, 'c) store \<Rightarrow> bool" where
  "cache_valid st \<longleftrightarrow>
     (\<forall>k a. renderModelCache st k = Some a \<longrightarrow> a < length (renderModels st))"

definition matrices_ok :: "('m, 'l, 'sh, 'c) scene \<Rightarrow> ('m, 'l, 'sh, 'c) store \<Rightarrow> bool" where
  "matrices_ok sc st \<longleftrightarrow>
     cam_m (camera sc) < length (matrices st) \<and>
     cam_projection (camera sc) < length (matrices st) \<and>
     prescale (viewport sc) < length (matrices st) \<and>
     postscale (viewport sc) < length (matrices st)"

text \<open>Different surface ids own different render models.\<close>

definition cache_inj :: "('m, 'l, 'sh, 'c) store \<Rightarrow> bool" where
  "cache_inj st \<longleftrightarrow> inj_on (renderModelCache st) (dom (renderModelCache st))"

text \<open>
  A render model is as built in a frame with projection \<open>p\<close> and viewport \<open>v\<close>: it
  holds these matrices and its derived geometry is the geometry of its surface under
  its transform.
\<close>

definition built_ok ::
  "('m, 'l, 'sh, 'c) externals \<Rightarrow> 'm \<Rightarrow> 'm \<Rightarrow> ('m, 'l, 'sh, 'c) render_model \<Rightarrow> bool" where
  "built_ok E p v rm \<longleftrightarrow>
     rm_projection rm = p \<and> rm_viewport rm = v \<and>
     geometry E (rm_surface rm) (rm_transform rm) p v
       = (transformed rm, projected rm, inFrustrum rm)"

text \<open>
  A later store extends an earlier one: no render model and no cache slot is lost, and
  every render model still belongs to its surface.
\<close>

definition extends :: "('m, 'l, 'sh, 'c) store \<Rightarrow> ('m, 'l, 'sh, 'c) store \<Rightarrow> bool" where
  "extends X Y \<longleftrightarrow>
     length (renderModels X) \<le> length (renderModels Y) \<and>
     (\<forall>k a. renderModelCache X k = Some a \<longrightarrow> renderModelCache Y k = Some a) \<and>
     (\<forall>b < length (renderModels X).
         rm_surface (renderModels Y ! b) = rm_surface (renderModels X ! b))"

text \<open>
  The shading results of a render model are those that the materials of surface \<open>s\<close>
  give for the lights and the scene's shader on the render data \<open>rd\<close>, and absent
  where the surface has no material.
\<close>

definition shaded_by ::
  "('m, 'l, 'sh, 'c) scene \<Rightarrow> 'l list \<Rightarrow> ('l, 'sh, 'c) surface \<Rightarrow> render_data \<Rightarrow>
     ('m, 'l, 'sh, 'c) render_model \<Rightarrow> bool" where
  "shaded_by sc lights s rd rm \<longleftrightarrow>
     fill rm = (case fillMaterial s of
                  None \<Rightarrow> None
                | Some mat \<Rightarrow> Some (mat lights (shader sc) rd)) \<and>
     stroke rm = (case strokeMaterial s of
                    None \<Rightarrow> None
                  | Some mat \<Rightarrow> Some (mat lights (shader sc) rd))"

text \<open>A number is finite; a number is an integer.\<close>

definition is_finite :: "number \<Rightarrow> bool" where
  "is_finite n \<longleftrightarrow> (case n of Fin r \<Rightarrow> True | _ \<Rightarrow> False)"

definition is_integer :: "number \<Rightarrow> bool" where
  "is_integer n \<longleftrightarrow> (case n of Fin r \<Rightarrow> r = of_int \<lfloor>r\<rfloor> | _ \<Rightarrow> False)"

section \<open>An example scene\<close>

text \<open>
  A small instance of the collaborators, used to run the pipeline on concrete scenes:
  a matrix is a translation, the product composes translations, the clip volume is the
  cube from \<open>(-1,-1,-1)\<close> to \<open>(1,1,1)\<close>, the barycenter is the centroid of the points.
\<close>

text \<open>The operators \<open>+\<close> and \<open>/\<close> on numbers, which the example geometry uses.\<close>

fun num_add :: "number \<Rightarrow> number \<Rightarrow> number" where
  "num_add NaN b = NaN"
| "num_add a NaN = NaN"
| "num_add (Fin a) (Fin b) = Fin (a + b)"
| "num_add PosInf NegInf = NaN"
| "num_add NegInf PosInf = NaN"
| "num_add PosInf b = PosInf"
| "num_add a PosInf = PosInf"
| "num_add NegInf b = NegInf"
| "num_add a NegInf = NegInf"

fun num_div :: "number \<Rightarrow> number \<Rightarrow> number" where
  "num_div NaN b = NaN"
| "num_div a NaN = NaN"
| "num_div (Fin a) (Fin b) =
     (if b \<noteq> 0 then Fin (a / b)
      else if a = 0 then NaN else if 0 < a then PosInf else NegInf)"
| "num_div (Fin a) b = Fin 0"
| "num_div PosInf (Fin b) = (if b < 0 then NegInf else PosInf)"
| "num_div NegInf (Fin b) = (if b < 0 then PosInf else NegInf)"
| "num_div a b = NaN"

definition pt :: "real \<Rightarrow> real \<Rightarrow> real \<Rightarrow> point" where
  "pt a b c = \<lparr>p_x = Fin a, p_y = Fin b, p_z = Fin c\<rparr>"

definition translate :: "point \<Rightarrow> point \<Rightarrow> point" where
  "translate d q =
     \<lparr>p_x = num_add (p_x q) (p_x d), p_y = num_add (p_y q) (p_y d),
      p_z = num_add (p_z q) (p_z d)\<rparr>"

text \<open>
  The centroid: the sum of the coordinates divided by the number of points, which is
  \<open>0 / 0\<close> for no point.
\<close>

definition centroid :: "point list \<Rightarrow> point" where
  "centroid qs =
     \<lparr>p_x = num_div (foldl num_add (Fin 0) (map p_x qs)) (Fin (real (length qs))),
      p_y = num_div (foldl num_add (Fin 0) (map p_y qs)) (Fin (real (length qs))),
      p_z = num_div (foldl num_add (Fin 0) (map p_z qs)) (Fin (real (length qs)))\<rparr>"

definition in_clip_volume :: "point \<Rightarrow> bool" where
  "in_clip_volume q \<longleftrightarrow>
     num_le (Fin (- 1)) (p_x q) \<and> num_le (p_x q) (Fin 1) \<and>
     num_le (Fin (- 1)) (p_y q) \<and> num_le (p_y q) (Fin 1) \<and>
     num_le (Fin (- 1)) (p_z q) \<and> num_le (p_z q) (Fin 1)"

definition example_externals :: "(point, nat, nat, nat) externals" where
  "example_externals =
     \<lparr>matrix_product = (\<lambda>a b. translate b a),
      geometry = (\<lambda>s t p v.
        let tr = map (translate t) (surface_points s);
            cs = map (translate p) tr;
            pr = map (translate v) cs
        in (\<lparr>points = tr, normal = surface_normal s, barycenter = centroid tr\<rparr>,
            \<lparr>points = pr, normal = surface_normal s, barycenter = centroid pr\<rparr>,
            list_all in_clip_volume cs))\<rparr>"

definition example_material :: "nat \<Rightarrow> (nat, nat, nat) material" where
  "example_material k = (\<lambda>lights sh rd. k + length lights + sh)"

definition near_surface :: "(nat, nat, nat) surface" where
  "near_surface =
     \<lparr>surface_id = 1, surface_points = [pt (1/4) (1/4) (- 1/2)], surface_normal = pt 0 0 (- 1),
      surface_cullBackfaces = True, fillMaterial = Some (example_material 10),
      strokeMaterial = None\<rparr>"

definition far_surface :: "(nat, nat, nat) surface" where
  "far_surface =
     \<lparr>surface_id = 2, surface_points = [pt (1/4) (3/4) (1/2)], surface_normal = pt 0 0 (- 1),
      surface_cullBackfaces = True, fillMaterial = None,
      strokeMaterial = Some (example_material 20)\<rparr>"

text \<open>A surface without points: its barycenter is \<open>NaN\<close>.\<close>

definition empty_surface :: "(nat, nat, nat) surface" where
  "empty_surface =
     \<lparr>surface_id = 3, surface_points = [], surface_normal = pt 0 0 (- 1),
      surface_cullBackfaces = True, fillMaterial = None, strokeMaterial = None\<rparr>"

text \<open>One shape with the two surfaces, the nearer one first.\<close>

definition example_scene :: "(point, nat, nat, nat) scene" where
  "example_scene =
     \<lparr>model = [(\<lparr>surfaces = [near_surface, far_surface]\<rparr>, [7], pt 0 0 0)],
      camera = \<lparr>cam_m = 0, cam_projection = 1\<rparr>,
      viewport = \<lparr>prescale = 2, postscale = 3\<rparr>,
      shader = 5, cullBackfaces = True, fractionalPoints = False, cache = True\<rparr>"

text \<open>
  The store of a scene that has not rendered yet: the four matrices of camera and
  viewport, no render model, an empty cache.
\<close>

definition example_store :: "(point, nat, nat, nat) store" where
  "example_store =
     \<lparr>matrices = [pt 0 0 (1/8), pt 0 (1/8) 0, pt (1/8) 0 0, pt 100 100 0],
      renderModels = [], renderModelCache = Map.empty\<rparr>"

text \<open>
  The same shape in the graph twice, under two transforms; the second one moves it out
  of the clip volume.
\<close>

definition revisit_scene :: "(point, nat, nat, nat) scene" where
  "revisit_scene =
     \<lparr>model = [(\<lparr>surfaces = [near_surface]\<rparr>, [7], pt 0 0 0),
               (\<lparr>surfaces = [near_surface]\<rparr>, [7], pt 5 0 0)],
      camera = \<lparr>cam_m = 0, cam_projection = 1\<rparr>,
      viewport = \<lparr>prescale = 2, postscale = 3\<rparr>,
      shader = 5, cullBackfaces = True, fractionalPoints = False, cache = True\<rparr>"

text \<open>The same shape twice, both times inside the clip volume.\<close>

definition twice_scene :: "(point, nat, nat, nat) scene" where
  "twice_scene =
     \<lparr>model = [(\<lparr>surfaces = [near_surface]\<rparr>, [7], pt 0 0 0),
               (\<lparr>surfaces = [near_surface]\<rparr>, [7], pt (1/4) 0 (1/4))],
      camera = \<lparr>cam_m = 0, cam_projection = 1\<rparr>,
      viewport = \<lparr>prescale = 2, postscale = 3\<rparr>,
      shader = 5, cullBackfaces = True, fractionalPoints = False, cache = True\<rparr>"

text \<open>One shape with the nearer surface, the surface without points and the farther one.\<close>

definition nan_scene :: "(point, nat, nat, nat) scene" where
  "nan_scene =
     \<lparr>model = [(\<lparr>surfaces = [near_surface, empty_surface, far_surface]\<rparr>, [7], pt 0 0 0)],
      camera = \<lparr>cam_m = 0, cam_projection = 1\<rparr>,
      viewport = \<lparr>prescale = 2, postscale = 3\<rparr>,
      shader = 5, cullBackfaces = True, fractionalPoints = False, cache = True\<rparr>"

section \<open>The walk, one visit at a time\<close>

lemma shapeVisitor_run:
  "shapeVisitor E sc p v acc (sh, l, t) = run E sc p v acc (map (\<lambda>s. (s, l, t)) (surfaces sh))"
  by (simp add: shapeVisitor_def run_def foldl_map)

lemma run_append: "run E sc p v acc (js @ ks) = run E sc p v (run E sc p v acc js) ks"
  by (simp add: run_def)

lemma run_Nil: "run E sc p v acc [] = acc"
  by (simp add: run_def)

lemma run_Cons: "run E sc p v acc (j # js) = run E sc p v (visit_surface E sc p v acc j) js"
  by (simp add: run_def)

lemma run_snoc: "run E sc p v acc (js @ [j]) = visit_surface E sc p v (run E sc p v acc js) j"
  by (simp add: run_def)

lemma foldl_shapeVisitor:
  "foldl (shapeVisitor E sc p v) acc vs =
     run E sc p v acc (concat (map (\<lambda>(sh, lights, t). map (\<lambda>s. (s, lights, t)) (surfaces sh)) vs))"
proof (induction vs arbitrary: acc)
  case Nil
  show ?case by (simp add: run_Nil)
next
  case (Cons x vs)
  obtain sh l t where x: "x = (sh, l, t)" by (cases x)
  show ?case by (simp add: x Cons.IH shapeVisitor_run run_append)
qed

lemma walk_run: "walk E sc p v st = run E sc p v (st, []) (jobs sc)"
  by (simp add: walk_def jobs_def foldl_shapeVisitor)

lemma visit_surface_settle:
  "visit_surface E sc p v (st, out) (s, l, t) =
     (case renderSurface E sc s t p v st of (a, st1) \<Rightarrow>
        (st1\<lparr>renderModels := (renderModels st1)[a := settle sc l s (renderModels st1 ! a)]\<rparr>,
         if is_visible sc s (renderModels st1 ! a) then out @ [a] else out))"
  by (simp add: visit_surface_def settle_def split: prod.split)

lemma new_built_ok: "built_ok E p v (new_RenderModel E s t p v)"
  by (simp add: built_ok_def new_RenderModel_def split: prod.split)

lemma update_built_ok: "built_ok E p v (RenderModel_update E rm t p v)"
  by (simp add: built_ok_def RenderModel_update_def split: prod.split)

lemma update_surface [simp]: "rm_surface (RenderModel_update E rm t p v) = rm_surface rm"
  by (simp add: RenderModel_update_def split: prod.split)

lemma new_surface [simp]: "rm_surface (new_RenderModel E s t p v) = s"
  by (simp add: new_RenderModel_def split: prod.split)

lemma shade_and_round_fields [simp]:
  "rm_surface (shade_and_round sc l s rm) = rm_surface rm"
  "rm_transform (shade_and_round sc l s rm) = rm_transform rm"
  "rm_projection (shade_and_round sc l s rm) = rm_projection rm"
  "rm_viewport (shade_and_round sc l s rm) = rm_viewport rm"
  "transformed (shade_and_round sc l s rm) = transformed rm"
  "inFrustrum (shade_and_round sc l s rm) = inFrustrum rm"
  "normal (projected (shade_and_round sc l s rm)) = normal (projected rm)"
  "barycenter (projected (shade_and_round sc l s rm)) = barycenter (projected rm)"
  by (simp_all add: shade_and_round_def Let_def)

lemma settle_fields [simp]:
  "rm_surface (settle sc l s rm) = rm_surface rm"
  "rm_transform (settle sc l s rm) = rm_transform rm"
  "rm_projection (settle sc l s rm) = rm_projection rm"
  "rm_viewport (settle sc l s rm) = rm_viewport rm"
  "transformed (settle sc l s rm) = transformed rm"
  "inFrustrum (settle sc l s rm) = inFrustrum rm"
  "normal (projected (settle sc l s rm)) = normal (projected rm)"
  "barycenter (projected (settle sc l s rm)) = barycenter (projected rm)"
  by (simp_all add: settle_def)

text \<open>What one call of renderSurface does, by cases.\<close>

lemma renderSurface_cases:
  assumes "renderSurface E sc s t p v st = (a, st1)"
  obtains
    (fresh) "a = length (renderModels st)"
      "renderModels st1 = renderModels st @ [new_RenderModel E s t p v]"
      "matrices st1 = matrices st"
      "\<not> cache sc \<and> renderModelCache st1 = renderModelCache st \<or>
       cache sc \<and> renderModelCache st (surface_id s) = None \<and>
         renderModelCache st1 = (renderModelCache st)(surface_id s \<mapsto> a)"
  | (hit) "cache sc" "renderModelCache st (surface_id s) = Some a"
      "renderModels st1 = (renderModels st)[a := RenderModel_update E (renderModels st ! a) t p v]"
      "matrices st1 = matrices st"
      "renderModelCache st1 = renderModelCache st"
  using assms
  by (auto simp: renderSurface_def split: if_splits option.splits)

lemma renderSurface_extends:
  assumes "renderSurface E sc s t p v st = (a, st1)" and "cache_valid st"
  shows "extends st st1" and "cache_valid st1" and "a < length (renderModels st1)"
    and "built_ok E p v (renderModels st1 ! a)"
    and "cache sc \<Longrightarrow> renderModelCache st1 (surface_id s) = Some a"
proof -
  show "extends st st1"
    using assms by (cases rule: renderSurface_cases)
      (auto simp: extends_def cache_valid_def nth_append nth_list_update)
  show "cache_valid st1"
    using assms by (cases rule: renderSurface_cases)
      (auto simp: cache_valid_def less_Suc_eq split: if_splits)
  show "a < length (renderModels st1)"
    using assms by (cases rule: renderSurface_cases) (auto simp: cache_valid_def)
  show "built_ok E p v (renderModels st1 ! a)"
    using assms by (cases rule: renderSurface_cases)
      (auto simp: cache_valid_def new_built_ok update_built_ok)
  show "cache sc \<Longrightarrow> renderModelCache st1 (surface_id s) = Some a"
    using assms by (cases rule: renderSurface_cases) auto
qed

lemma update_transform [simp]: "rm_transform (RenderModel_update E rm t p v) = t"
  by (simp add: RenderModel_update_def split: prod.split)

lemma new_transform [simp]: "rm_transform (new_RenderModel E s t p v) = t"
  by (simp add: new_RenderModel_def split: prod.split)

lemma update_shading [simp]:
  "fill (RenderModel_update E rm t p v) = fill rm"
  "stroke (RenderModel_update E rm t p v) = stroke rm"
  by (simp_all add: RenderModel_update_def split: prod.split)

text \<open>What one pass of the loop body does, by cases.\<close>

lemma visit_surface_cases:
  assumes "visit_surface E sc p v (st, out) (s, l, t) = (st', out')" and "cache_valid st"
  obtains
    (fresh) B where "B = new_RenderModel E s t p v"
      "renderModels st' = renderModels st @ [settle sc l s B]"
      "out' = (if is_visible sc s B then out @ [length (renderModels st)] else out)"
      "matrices st' = matrices st"
      "\<not> cache sc \<and> renderModelCache st' = renderModelCache st \<or>
       cache sc \<and> renderModelCache st (surface_id s) = None \<and>
         renderModelCache st' = (renderModelCache st)(surface_id s \<mapsto> length (renderModels st))"
  | (hit) a B where "cache sc" "renderModelCache st (surface_id s) = Some a"
      "a < length (renderModels st)"
      "B = RenderModel_update E (renderModels st ! a) t p v"
      "renderModels st' = (renderModels st)[a := settle sc l s B]"
      "out' = (if is_visible sc s B then out @ [a] else out)"
      "matrices st' = matrices st"
      "renderModelCache st' = renderModelCache st"
proof -
  obtain a st1 where rs: "renderSurface E sc s t p v st = (a, st1)"
    by (cases "renderSurface E sc s t p v st")
  from assms(1) have st': "st' = st1\<lparr>renderModels := (renderModels st1)[a := settle sc l s (renderModels st1 ! a)]\<rparr>"
    and out': "out' = (if is_visible sc s (renderModels st1 ! a) then out @ [a] else out)"
    by (simp_all add: visit_surface_settle rs)
  from rs show thesis
  proof (cases rule: renderSurface_cases)
    case fresh': fresh
    show thesis
      by (rule fresh [of "new_RenderModel E s t p v"]) (use fresh' st' out' in auto)
  next
    case hit': hit
    have "a < length (renderModels st)"
      using hit' assms(2) by (simp add: cache_valid_def)
    then show thesis
      using hit' st' out'
      by (intro hit [of a "RenderModel_update E (renderModels st ! a) t p v"]) auto
  qed
qed

lemma visit_surface_extends:
  assumes "visit_surface E sc p v (st, out) (s, l, t) = (st', out')" and "cache_valid st"
  shows "extends st st'" and "cache_valid st'"
proof -
  show "extends st st'"
    by (cases rule: visit_surface_cases [OF assms])
      (use assms(2) in \<open>auto simp: extends_def cache_valid_def nth_append nth_list_update\<close>)
  show "cache_valid st'"
    by (cases rule: visit_surface_cases [OF assms])
      (use assms(2) in \<open>auto simp: cache_valid_def less_Suc_eq split: if_splits\<close>)
qed

lemma extends_refl: "extends X X"
  by (simp add: extends_def)

lemma extends_trans: "extends X Y \<Longrightarrow> extends Y Z \<Longrightarrow> extends X Z"
  by (auto simp: extends_def)

lemma run_extends:
  assumes "run E sc p v (st, out) js = (st', out')" and "cache_valid st"
  shows "extends st st' \<and> cache_valid st'"
  using assms
proof (induction js arbitrary: st out)
  case Nil
  then show ?case by (simp add: run_Nil extends_refl)
next
  case (Cons j js)
  obtain s l t where j: "j = (s, l, t)" by (cases j)
  obtain st1 out1 where v: "visit_surface E sc p v (st, out) (s, l, t) = (st1, out1)"
    by (cases "visit_surface E sc p v (st, out) (s, l, t)")
  have 1: "extends st st1" and 2: "cache_valid st1"
    using visit_surface_extends [OF v Cons.prems(2)] by simp_all
  have "run E sc p v (st1, out1) js = (st', out')"
    using Cons.prems(1) by (simp add: run_Cons j v)
  from Cons.IH [OF this 2] 1 show ?case
    by (blast intro: extends_trans)
qed

lemma visit_surface_matrices:
  assumes "visit_surface E sc p v (st, out) (s, l, t) = (st', out')"
  shows "matrices st' = matrices st"
  using assms
  by (auto simp: visit_surface_settle renderSurface_def split: prod.splits if_splits option.splits)

lemma run_matrices:
  assumes "run E sc p v (st, out) js = (st', out')"
  shows "matrices st' = matrices st"
  using assms
proof (induction js arbitrary: st out)
  case Nil
  then show ?case by (simp add: run_Nil)
next
  case (Cons j js)
  obtain s l t where j: "j = (s, l, t)" by (cases j)
  obtain st1 out1 where v: "visit_surface E sc p v (st, out) (s, l, t) = (st1, out1)"
    by (cases "visit_surface E sc p v (st, out) (s, l, t)")
  have "run E sc p v (st1, out1) js = (st', out')"
    using Cons.prems(1) by (simp add: run_Cons j v)
  from Cons.IH [OF this] visit_surface_matrices [OF v] show ?case by simp
qed

text \<open>
  An invariant of the pushed render models: a property that shading a visible, freshly
  built render model establishes and that an update keeps holds of every pushed model.
\<close>

lemma run_pushed_invariant:
  assumes run: "run E sc p v (st, out) js = (st', out')"
    and valid: "cache_valid st"
    and inv: "\<forall>a\<in>set out. a < length (renderModels st) \<and> P (renderModels st ! a)"
    and shade: "\<And>s l t B. (s, l, t) \<in> set js \<Longrightarrow> built_ok E p v B \<Longrightarrow> rm_transform B = t \<Longrightarrow>
                  is_visible sc s B \<Longrightarrow> P (shade_and_round sc l s B)"
    and upd: "\<And>rm t. P rm \<Longrightarrow> P (RenderModel_update E rm t p v)"
  shows "\<forall>a\<in>set out'. a < length (renderModels st') \<and> P (renderModels st' ! a)"
  using run valid inv shade
proof (induction js arbitrary: st out)
  case Nil
  then show ?case by (simp add: run_Nil)
next
  case (Cons j js)
  obtain s l t where j: "j = (s, l, t)" by (cases j)
  obtain st1 out1 where v: "visit_surface E sc p v (st, out) (s, l, t) = (st1, out1)"
    by (cases "visit_surface E sc p v (st, out) (s, l, t)")
  have r: "run E sc p v (st1, out1) js = (st', out')"
    using Cons.prems(1) by (simp add: run_Cons j v)
  have valid1: "cache_valid st1"
    using visit_surface_extends [OF v Cons.prems(2)] by simp
  have sh: "\<And>B. built_ok E p v B \<Longrightarrow> rm_transform B = t \<Longrightarrow> is_visible sc s B \<Longrightarrow>
              P (shade_and_round sc l s B)"
    using Cons.prems(4) [of s l t] by (simp add: j)
  have inv1: "\<forall>a\<in>set out1. a < length (renderModels st1) \<and> P (renderModels st1 ! a)"
  proof (cases rule: visit_surface_cases [OF v Cons.prems(2)])
    case (1 B)
    have "built_ok E p v B" "rm_transform B = t"
      using 1(1) by (simp_all add: new_built_ok)
    then show ?thesis
      using 1 Cons.prems(3) sh [of B]
      by (auto simp: nth_append settle_def)
  next
    case (2 a B)
    have b: "built_ok E p v B" "rm_transform B = t"
      using 2(4) by (simp_all add: update_built_ok)
    have "P (renderModels st ! a) \<Longrightarrow> P (settle sc l s B)"
      using sh [OF b] upd [of "renderModels st ! a" t] 2(4) by (simp add: settle_def)
    moreover have "is_visible sc s B \<Longrightarrow> P (settle sc l s B)"
      using sh [OF b] by (simp add: settle_def)
    ultimately show ?thesis
      using 2 Cons.prems(3)
      by (auto simp: nth_list_update)
  qed
  show ?case
    by (rule Cons.IH [OF r valid1 inv1]) (use Cons.prems(4) in auto)
qed

lemma visit_surface_inj:
  assumes v: "visit_surface E sc p v (st, out) (s, l, t) = (st', out')" and valid: "cache_valid st"
    and inj: "inj_on (renderModelCache st) (dom (renderModelCache st))"
  shows "inj_on (renderModelCache st') (dom (renderModelCache st'))"
proof (cases rule: visit_surface_cases [OF v valid])
  case (1 B)
  have "\<And>k. renderModelCache st k \<noteq> Some (length (renderModels st))"
    using valid by (auto simp: cache_valid_def)
  then show ?thesis
    using 1(5) inj
    by (auto simp: inj_on_def dom_def split: if_splits)
next
  case (2 a B)
  then show ?thesis using inj by simp
qed

text \<open>
  When no render model is visited again after it was pushed (no cache, or surface ids
  visited once each), every pushed model still has what shading it established.
\<close>

lemma run_pushed_no_revisit:
  assumes run: "run E sc p v (st, out) js = (st', out')"
    and valid: "cache_valid st"
    and inj: "inj_on (renderModelCache st) (dom (renderModelCache st))"
    and inv: "\<forall>a\<in>set out. a < length (renderModels st) \<and> P (renderModels st ! a)"
    and norev: "\<not> cache sc \<or>
        (distinct (map (\<lambda>j. surface_id (fst j)) js) \<and>
         (\<forall>j\<in>set js. \<forall>a\<in>set out. renderModelCache st (surface_id (fst j)) \<noteq> Some a))"
    and shade: "\<And>s l t B. (s, l, t) \<in> set js \<Longrightarrow> built_ok E p v B \<Longrightarrow> rm_transform B = t \<Longrightarrow>
                  is_visible sc s B \<Longrightarrow> P (shade_and_round sc l s B)"
  shows "\<forall>a\<in>set out'. a < length (renderModels st') \<and> P (renderModels st' ! a)"
  using run valid inj inv norev shade
proof (induction js arbitrary: st out)
  case Nil
  then show ?case by (simp add: run_Nil)
next
  case (Cons j js)
  obtain s l t where j: "j = (s, l, t)" by (cases j)
  obtain st1 out1 where v: "visit_surface E sc p v (st, out) (s, l, t) = (st1, out1)"
    by (cases "visit_surface E sc p v (st, out) (s, l, t)")
  have r: "run E sc p v (st1, out1) js = (st', out')"
    using Cons.prems(1) by (simp add: run_Cons j v)
  note valid = Cons.prems(2) and inj = Cons.prems(3) and inv = Cons.prems(4)
    and norev = Cons.prems(5)
  have valid1: "cache_valid st1"
    using visit_surface_extends [OF v valid] by simp
  have inj1: "inj_on (renderModelCache st1) (dom (renderModelCache st1))"
    by (rule visit_surface_inj [OF v valid inj])
  have sh: "\<And>B. built_ok E p v B \<Longrightarrow> rm_transform B = t \<Longrightarrow> is_visible sc s B \<Longrightarrow>
              P (shade_and_round sc l s B)"
    using Cons.prems(6) [of s l t] by (simp add: j)
  have others: "cache sc \<Longrightarrow> j' \<in> set js \<Longrightarrow> surface_id (fst j') \<noteq> surface_id s" for j'
    using norev by (force simp: j)
  have dist: "cache sc \<Longrightarrow> distinct (map (\<lambda>j. surface_id (fst j)) js)"
    using norev by simp
  have old: "cache sc \<Longrightarrow> j' \<in> set js \<Longrightarrow> b \<in> set out \<Longrightarrow>
      renderModelCache st (surface_id (fst j')) \<noteq> Some b" for j' b
    using norev by simp
  have both: "(\<forall>a\<in>set out1. a < length (renderModels st1) \<and> P (renderModels st1 ! a)) \<and>
      (\<not> cache sc \<or>
        (distinct (map (\<lambda>j. surface_id (fst j)) js) \<and>
         (\<forall>j\<in>set js. \<forall>a\<in>set out1. renderModelCache st1 (surface_id (fst j)) \<noteq> Some a)))"
  proof (cases rule: visit_surface_cases [OF v valid])
    case (1 B)
    have b: "built_ok E p v B" "rm_transform B = t"
      using 1(1) by (simp_all add: new_built_ok)
    have nolen: "\<And>k. renderModelCache st k \<noteq> Some (length (renderModels st))"
      using valid by (auto simp: cache_valid_def)
    have "\<forall>a\<in>set out1. a < length (renderModels st1) \<and> P (renderModels st1 ! a)"
      using 1 inv sh [OF b] by (auto simp: nth_append settle_def)
    moreover have "renderModelCache st1 (surface_id (fst j')) \<noteq> Some b"
      if "cache sc" "j' \<in> set js" "b \<in> set out1" for j' b
    proof -
      have "renderModelCache st1 (surface_id (fst j')) = renderModelCache st (surface_id (fst j'))"
        using 1(5) others [OF that(1,2)] by auto
      moreover have "b \<in> set out \<or> b = length (renderModels st)"
        using that(3) 1(3) by (auto split: if_splits)
      ultimately show ?thesis
        using old [OF that(1,2)] nolen by auto
    qed
    ultimately show ?thesis using dist by blast
  next
    case (2 a B)
    have b: "built_ok E p v B" "rm_transform B = t"
      using 2(4) by (simp_all add: update_built_ok)
    have notin: "a \<notin> set out"
      using norev 2(1,2) by (auto simp: j)
    have "\<forall>a\<in>set out1. a < length (renderModels st1) \<and> P (renderModels st1 ! a)"
      using 2 inv sh [OF b] notin by (auto simp: nth_list_update settle_def)
    moreover have "renderModelCache st1 (surface_id (fst j')) \<noteq> Some b"
      if "j' \<in> set js" "b \<in> set out1" for j' b
    proof
      assume eq: "renderModelCache st1 (surface_id (fst j')) = Some b"
      then have eq': "renderModelCache st (surface_id (fst j')) = Some b"
        using 2(8) by simp
      have "b \<in> set out \<or> b = a"
        using that(2) 2(6) by (auto split: if_splits)
      then show False
      proof
        assume "b \<in> set out"
        then show False using old [OF 2(1) that(1), of b] eq' by blast
      next
        assume "b = a"
        then have "surface_id (fst j') = surface_id s"
          using inj eq' 2(2) by (auto simp: inj_on_def dom_def)
        then show False using others [OF 2(1) that(1)] by simp
      qed
    qed
    ultimately show ?thesis using dist 2(1) by blast
  qed
  show ?case
    by (rule Cons.IH [OF r valid1 inj1 conjunct1 [OF both] conjunct2 [OF both]])
      (use Cons.prems(6) in auto)
qed

lemma visit_surface_cached:
  assumes v: "visit_surface E sc p v (st, out) (s, l, t) = (st', out')" and valid: "cache_valid st"
    and c: "cache sc"
  obtains a B where "renderModelCache st' (surface_id s) = Some a"
    "a < length (renderModels st')" "renderModels st' ! a = settle sc l s B"
    "built_ok E p v B" "rm_transform B = t"
    "out' = (if is_visible sc s B then out @ [a] else out)"
    "\<forall>b. b < length (renderModels st) \<longrightarrow> b \<noteq> a \<longrightarrow> renderModels st' ! b = renderModels st ! b"
    "\<forall>a'. renderModelCache st (surface_id s) = Some a' \<longrightarrow>
        a' = a \<and> rm_surface B = rm_surface (renderModels st ! a) \<and>
        length (renderModels st') = length (renderModels st) \<and>
        renderModelCache st' = renderModelCache st"
    "renderModelCache st (surface_id s) = None \<longrightarrow>
        a = length (renderModels st) \<and> rm_surface B = s \<and>
        length (renderModels st') = Suc (length (renderModels st))"
proof (cases rule: visit_surface_cases [OF v valid])
  case (1 B)
  show ?thesis
    by (rule that [of "length (renderModels st)" B])
      (use 1 c in \<open>auto simp: new_built_ok nth_append\<close>)
next
  case (2 a B)
  show ?thesis
    by (rule that [of a B]) (use 2 c in \<open>auto simp: update_built_ok\<close>)
qed

lemma shade_and_round_projected:
  "projected (shade_and_round sc l s rm) =
     (if fractionalPoints sc then projected rm
      else (projected rm)\<lparr>points := map Point_round (points (projected rm))\<rparr>)"
  by (simp add: shade_and_round_def Let_def)

lemma is_visible_cong:
  "projected B = projected B' \<Longrightarrow> inFrustrum B = inFrustrum B' \<Longrightarrow>
     is_visible sc s B = is_visible sc s B'"
  by (simp add: is_visible_def)

lemma settle_projected_cong:
  "projected B = projected B' \<Longrightarrow> inFrustrum B = inFrustrum B' \<Longrightarrow>
     projected (settle sc l s B) = projected (settle sc l s B')"
  by (simp add: settle_def shade_and_round_projected is_visible_def)

lemma built_ok_same:
  assumes "built_ok E p v B" "built_ok E p v B'" "rm_surface B = rm_surface B'"
    "rm_transform B = rm_transform B'"
  shows "projected B = projected B'" "inFrustrum B = inFrustrum B'" "transformed B = transformed B'"
  using assms by (auto simp: built_ok_def)

text \<open>
  Running the same visits again from a store that extends the one the first run left
  pushes the same references and leaves them with the same projected geometry.
\<close>

lemma run_again:
  assumes c: "cache sc" and vX: "cache_valid X" and vY: "cache_valid Y"
  shows "run E sc p v (X, []) js = (Xf, out1) \<Longrightarrow> extends Xf Y \<Longrightarrow>
     \<exists>Yf. run E sc p v (Y, []) js = (Yf, out1) \<and> extends Y Yf \<and> cache_valid Yf \<and>
          (\<forall>a\<in>set out1. a < length (renderModels Xf) \<and>
              projected (renderModels Yf ! a) = projected (renderModels Xf ! a))"
proof (induction js arbitrary: Xf out1 rule: rev_induct)
  case Nil
  then show ?case using vY by (simp add: run_Nil extends_refl)
next
  case (snoc j js)
  obtain s l t where j: "j = (s, l, t)" by (cases j)
  obtain Xm outm where rX: "run E sc p v (X, []) js = (Xm, outm)"
    by (cases "run E sc p v (X, []) js")
  have vXf: "visit_surface E sc p v (Xm, outm) (s, l, t) = (Xf, out1)"
    using snoc.prems(1) by (simp add: run_snoc rX j)
  have vXm: "cache_valid Xm" and eXm: "extends X Xm"
    using run_extends [OF rX vX] by simp_all
  have eXmf: "extends Xm Xf"
    using visit_surface_extends [OF vXf vXm] by simp
  have "extends Xm Y"
    by (rule extends_trans [OF eXmf snoc.prems(2)])
  from snoc.IH [OF rX this] obtain Ym where
    rY: "run E sc p v (Y, []) js = (Ym, outm)" and eYm: "extends Y Ym" and vYm: "cache_valid Ym"
    and same: "\<forall>a\<in>set outm. a < length (renderModels Xm) \<and>
              projected (renderModels Ym ! a) = projected (renderModels Xm ! a)"
    by blast
  obtain Yf out2 where vYf: "visit_surface E sc p v (Ym, outm) (s, l, t) = (Yf, out2)"
    by (cases "visit_surface E sc p v (Ym, outm) (s, l, t)")
  have rYf: "run E sc p v (Y, []) (js @ [j]) = (Yf, out2)"
    by (simp add: run_snoc rY j vYf)
  have eYf: "extends Y Yf" and vYf': "cache_valid Yf"
    using run_extends [OF rYf vY] by simp_all
  from vXf vXm c obtain a B where
    X1: "renderModelCache Xf (surface_id s) = Some a" and
    X2: "a < length (renderModels Xf)" and
    X3: "renderModels Xf ! a = settle sc l s B" and
    X4: "built_ok E p v B" "rm_transform B = t" and
    X5: "out1 = (if is_visible sc s B then outm @ [a] else outm)" and
    X6: "\<forall>b. b < length (renderModels Xm) \<longrightarrow> b \<noteq> a \<longrightarrow> renderModels Xf ! b = renderModels Xm ! b"
    by (rule visit_surface_cached) blast
  have cY: "renderModelCache Y (surface_id s) = Some a" and aY: "a < length (renderModels Y)"
    and sY: "rm_surface (renderModels Y ! a) = rm_surface (renderModels Xf ! a)"
    using snoc.prems(2) X1 X2 by (auto simp: extends_def)
  have cYm: "renderModelCache Ym (surface_id s) = Some a"
    and sYm: "rm_surface (renderModels Ym ! a) = rm_surface (renderModels Y ! a)"
    using eYm cY aY by (auto simp: extends_def)
  from vYf vYm c obtain a' B' where
    Y1: "a' < length (renderModels Yf)" and
    Y3: "renderModels Yf ! a' = settle sc l s B'" and
    Y4: "built_ok E p v B'" "rm_transform B' = t" and
    Y5: "out2 = (if is_visible sc s B' then outm @ [a'] else outm)" and
    Y6: "\<forall>b. b < length (renderModels Ym) \<longrightarrow> b \<noteq> a' \<longrightarrow> renderModels Yf ! b = renderModels Ym ! b" and
    Y7: "\<forall>a''. renderModelCache Ym (surface_id s) = Some a'' \<longrightarrow>
        a'' = a' \<and> rm_surface B' = rm_surface (renderModels Ym ! a') \<and>
        length (renderModels Yf) = length (renderModels Ym) \<and>
        renderModelCache Yf = renderModelCache Ym"
    by (rule visit_surface_cached) blast
  have a': "a' = a" and sB': "rm_surface B' = rm_surface (renderModels Ym ! a)"
    using Y7 cYm by auto
  have "rm_surface B' = rm_surface B"
    using sB' sYm sY X3 by simp
  then have geo: "projected B' = projected B" "inFrustrum B' = inFrustrum B"
    using built_ok_same [OF Y4(1) X4(1)] X4(2) Y4(2) by simp_all
  have vis: "is_visible sc s B' = is_visible sc s B"
    by (rule is_visible_cong [OF geo])
  have out: "out2 = out1"
    using X5 Y5 vis a' by simp
  have lenm: "length (renderModels Xm) \<le> length (renderModels Ym)"
    using \<open>extends Xm Y\<close> eYm by (auto simp: extends_def)
  have "a < length (renderModels Xf) \<and>
        projected (renderModels Yf ! a) = projected (renderModels Xf ! a)"
    using X2 X3 Y3 a' settle_projected_cong [OF geo] by simp
  moreover have "b < length (renderModels Xf) \<and>
        projected (renderModels Yf ! b) = projected (renderModels Xf ! b)"
    if "b \<in> set outm" "b \<noteq> a" for b
  proof -
    have b: "b < length (renderModels Xm)"
      and pb: "projected (renderModels Ym ! b) = projected (renderModels Xm ! b)"
      using same that(1) by auto
    have "renderModels Xf ! b = renderModels Xm ! b"
      using X6 b that(2) by simp
    moreover have "renderModels Yf ! b = renderModels Ym ! b"
      using Y6 b lenm that(2) a' by simp
    moreover have "b < length (renderModels Xf)"
      using b eXmf by (auto simp: extends_def)
    ultimately show ?thesis using pb by simp
  qed
  ultimately have "\<forall>b\<in>set out1. b < length (renderModels Xf) \<and>
              projected (renderModels Yf ! b) = projected (renderModels Xf ! b)"
    using X5 by (auto split: if_splits)
  then show ?case
    using rYf out eYf vYf' by blast
qed

section \<open>The record of the visits\<close>

lemma visit_surface_out:
  "visit_surface E sc p v (st, out) (s, l, t) =
     (fst (visit_surface E sc p v (st, []) (s, l, t)),
      out @ map fst (filter snd (trace E sc p v st [(s, l, t)])))"
  by (simp add: visit_surface_settle split: prod.split)

lemma run_trace:
  "run E sc p v (st, out) js =
     (fst (run E sc p v (st, []) js), out @ map fst (filter snd (trace E sc p v st js)))"
proof (induction js arbitrary: st out)
  case Nil
  show ?case by (simp add: run_Nil)
next
  case (Cons j js)
  obtain s l t where j: "j = (s, l, t)" by (cases j)
  obtain a st1 where rs: "renderSurface E sc s t p v st = (a, st1)"
    by (cases "renderSurface E sc s t p v st")
  define st' where "st' = fst (visit_surface E sc p v (st, []) (s, l, t))"
  have v: "visit_surface E sc p v (st, out') (s, l, t) =
      (st', out' @ (if is_visible sc s (renderModels st1 ! a) then [a] else []))" for out'
    by (simp add: st'_def visit_surface_settle rs)
  have t: "trace E sc p v st (j # js) =
      (a, is_visible sc s (renderModels st1 ! a)) # trace E sc p v st' js"
    by (simp add: j rs st'_def)
  show ?case
    unfolding run_Cons j v t [unfolded j]
    by (subst Cons.IH, subst (2) Cons.IH) simp
qed

lemma run_store_out:
  "fst (run E sc p v (st, out) js) = fst (run E sc p v (st, []) js)"
  by (subst run_trace) simp

lemma trace_append:
  "trace E sc p v st (js @ ks) =
     trace E sc p v st js @ trace E sc p v (fst (run E sc p v (st, []) js)) ks"
proof (induction js arbitrary: st)
  case Nil
  show ?case by (simp add: run_Nil)
next
  case (Cons j js)
  obtain st1 out1 where vs: "visit_surface E sc p v (st, []) j = (st1, out1)"
    by (cases "visit_surface E sc p v (st, []) j")
  have "fst (run E sc p v (st, []) (j # js)) = fst (run E sc p v (st1, []) js)"
    unfolding run_Cons vs by (rule run_store_out)
  then show ?case by (simp add: Cons.IH vs)
qed

lemma length_trace [simp]: "length (trace E sc p v st js) = length js"
  by (induction js arbitrary: st) simp_all

lemma trace_Cons:
  "trace E sc p v st ((s, l, t) # js) =
     (fst (renderSurface E sc s t p v st),
      is_visible sc s (renderModels (snd (renderSurface E sc s t p v st))
                         ! fst (renderSurface E sc s t p v st)))
     # trace E sc p v (fst (visit_surface E sc p v (st, []) (s, l, t))) js"
  by (simp split: prod.split)

lemma run_Cons_store:
  "fst (run E sc p v (st, []) (j # js)) =
     fst (run E sc p v (fst (visit_surface E sc p v (st, []) j), []) js)"
proof -
  obtain st1 out1 where vs: "visit_surface E sc p v (st, []) j = (st1, out1)"
    by (cases "visit_surface E sc p v (st, []) j")
  show ?thesis
    unfolding run_Cons vs fst_conv by (rule run_store_out)
qed

text \<open>What one visit leaves at the reference that renderSurface returned.\<close>

lemma visit_surface_ref:
  assumes valid: "cache_valid st"
    and rs: "renderSurface E sc s t p v st = (a, st1)"
    and v: "visit_surface E sc p v (st, out) (s, l, t) = (st', out')"
  shows "a < length (renderModels st')"
    "renderModels st' ! a = settle sc l s (renderModels st1 ! a)"
    "built_ok E p v (renderModels st1 ! a)" "rm_transform (renderModels st1 ! a) = t"
    "cache sc \<Longrightarrow> renderModelCache st' (surface_id s) = Some a"
    "cache_valid st'" "extends st st'"
    "out' = (if is_visible sc s (renderModels st1 ! a) then out @ [a] else out)"
    "\<forall>b. b \<noteq> a \<longrightarrow> b < length (renderModels st) \<longrightarrow> renderModels st' ! b = renderModels st ! b"
    "renderModelCache st' = renderModelCache st1"
    "length (renderModels st') = length (renderModels st1)"
proof -
  have st': "st' = st1\<lparr>renderModels := (renderModels st1)[a := settle sc l s (renderModels st1 ! a)]\<rparr>"
    and out': "out' = (if is_visible sc s (renderModels st1 ! a) then out @ [a] else out)"
    using v by (simp_all add: rs visit_surface_settle)
  note f = renderSurface_extends [OF rs valid]
  show "a < length (renderModels st')" using f(3) by (simp add: st')
  show "renderModels st' ! a = settle sc l s (renderModels st1 ! a)" using f(3) by (simp add: st')
  show "built_ok E p v (renderModels st1 ! a)" by (rule f(4))
  show "rm_transform (renderModels st1 ! a) = t"
    using rs valid
    by (cases rule: renderSurface_cases) (auto simp: cache_valid_def)
  show "cache sc \<Longrightarrow> renderModelCache st' (surface_id s) = Some a"
    using f(5) by (simp add: st')
  show "cache_valid st'" "extends st st'"
    using visit_surface_extends [OF v valid] by simp_all
  show "out' = (if is_visible sc s (renderModels st1 ! a) then out @ [a] else out)"
    by (rule out')
  show "\<forall>b. b \<noteq> a \<longrightarrow> b < length (renderModels st) \<longrightarrow> renderModels st' ! b = renderModels st ! b"
    using rs unfolding st'
    by (cases rule: renderSurface_cases) (auto simp: nth_append)
  show "renderModelCache st' = renderModelCache st1"
    "length (renderModels st') = length (renderModels st1)"
    by (simp_all add: st')
qed

lemma run_extends':
  assumes "cache_valid st"
  shows "extends st (fst (run E sc p v (st, out) js))" "cache_valid (fst (run E sc p v (st, out) js))"
  using run_extends [OF _ assms, of E sc p v out js] 
  by (cases "run E sc p v (st, out) js", simp)+

text \<open>With the cache, every visit returns the slot that the cache holds at the end.\<close>

lemma trace_slots:
  assumes c: "cache sc"
  shows "cache_valid X \<Longrightarrow> i < length js \<Longrightarrow>
     renderModelCache (fst (run E sc p v (X, []) js)) (surface_id (fst (js ! i)))
       = Some (fst (trace E sc p v X js ! i))"
proof (induction js arbitrary: X i)
  case Nil
  then show ?case by simp
next
  case (Cons j js)
  obtain s l t where j: "j = (s, l, t)" by (cases j)
  obtain a st1 where rs: "renderSurface E sc s t p v X = (a, st1)"
    by (cases "renderSurface E sc s t p v X")
  obtain X1 out1 where vs: "visit_surface E sc p v (X, []) (s, l, t) = (X1, out1)"
    by (cases "visit_surface E sc p v (X, []) (s, l, t)")
  note f = visit_surface_ref [OF Cons.prems(1) rs vs]
  have fin: "fst (run E sc p v (X, []) ((s, l, t) # js)) = fst (run E sc p v (X1, []) js)"
    by (simp add: run_Cons_store vs)
  show ?case
  proof (cases i)
    case 0
    have "extends X1 (fst (run E sc p v (X1, []) js))"
      by (rule run_extends' [OF f(6)])
    then show ?thesis
      using f(5) [OF c] by (simp add: 0 fin j trace_Cons rs extends_def)
  next
    case (Suc i')
    then show ?thesis
      using Cons.IH [OF f(6), of i'] Cons.prems(2)
      by (simp add: fin j trace_Cons vs)
  qed
qed

text \<open>
  When no surface id is visited twice (or there is no cache), the visits return
  pairwise different references.
\<close>

lemma trace_distinct:
  assumes "cache_valid X" and "inj_on (renderModelCache X) (dom (renderModelCache X))"
    and "\<not> cache sc \<or> distinct (map (\<lambda>j. surface_id (fst j)) js)"
  shows "distinct (map fst (trace E sc p v X js)) \<and>
     (\<forall>a\<in>set (map fst (trace E sc p v X js)).
        length (renderModels X) \<le> a \<or>
        (cache sc \<and> (\<exists>j\<in>set js. renderModelCache X (surface_id (fst j)) = Some a)))"
  using assms
proof (induction js arbitrary: X)
  case Nil
  then show ?case by simp
next
  case (Cons j js)
  obtain s l t where j: "j = (s, l, t)" by (cases j)
  obtain a st1 where rs: "renderSurface E sc s t p v X = (a, st1)"
    by (cases "renderSurface E sc s t p v X")
  obtain X1 out1 where vs: "visit_surface E sc p v (X, []) (s, l, t) = (X1, out1)"
    by (cases "visit_surface E sc p v (X, []) (s, l, t)")
  note valid = Cons.prems(1) and inj = Cons.prems(2) and norev = Cons.prems(3)
  note f = visit_surface_ref [OF valid rs vs]
  have inj1: "inj_on (renderModelCache X1) (dom (renderModelCache X1))"
    by (rule visit_surface_inj [OF vs valid inj])
  have norev1: "\<not> cache sc \<or> distinct (map (\<lambda>j. surface_id (fst j)) js)"
    using norev by auto
  have others: "cache sc \<Longrightarrow> j' \<in> set js \<Longrightarrow> surface_id (fst j') \<noteq> surface_id s" for j'
    using norev by (force simp: j)
  have tr: "trace E sc p v X (j # js) =
      (a, is_visible sc s (renderModels st1 ! a)) # trace E sc p v X1 js"
    by (simp add: j trace_Cons rs vs)
  have len: "length (renderModels X) \<le> length (renderModels X1)"
    using f(7) by (simp add: extends_def)
  have nolen: "\<And>k. renderModelCache X k \<noteq> Some (length (renderModels X))"
    using valid by (auto simp: cache_valid_def)
  from Cons.IH [OF f(6) inj1 norev1]
  have d: "distinct (map fst (trace E sc p v X1 js))"
    and r: "\<And>a'. a' \<in> set (map fst (trace E sc p v X1 js)) \<Longrightarrow>
        length (renderModels X1) \<le> a' \<or>
        (cache sc \<and> (\<exists>j\<in>set js. renderModelCache X1 (surface_id (fst j)) = Some a'))"
    by blast+
  have old: "renderModelCache X (surface_id (fst j')) = renderModelCache X1 (surface_id (fst j'))"
    if "cache sc" "j' \<in> set js" for j'
    using rs others [OF that] f(10)
    by (cases rule: renderSurface_cases) auto
  have head: "length (renderModels X) \<le> a \<or>
        (cache sc \<and> renderModelCache X (surface_id s) = Some a)"
    using rs by (cases rule: renderSurface_cases) auto
  have notin: "a \<notin> set (map fst (trace E sc p v X1 js))"
  proof
    assume "a \<in> set (map fst (trace E sc p v X1 js))"
    from r [OF this] f(1) obtain j' where c: "cache sc" and j': "j' \<in> set js"
      and e: "renderModelCache X1 (surface_id (fst j')) = Some a"
      by auto
    have e': "renderModelCache X (surface_id (fst j')) = Some a"
      using old [OF c j'] e by simp
    then have "a < length (renderModels X)"
      using valid by (auto simp: cache_valid_def)
    then have "renderModelCache X (surface_id s) = Some a"
      using head by auto
    then have "surface_id (fst j') = surface_id s"
      using inj e' by (auto simp: inj_on_def dom_def)
    then show False using others [OF c j'] by simp
  qed
  have rest: "length (renderModels X) \<le> a' \<or>
        (cache sc \<and> (\<exists>j\<in>set (j # js). renderModelCache X (surface_id (fst j)) = Some a'))"
    if "a' \<in> set (map fst (trace E sc p v X1 js))" for a'
    using r [OF that] len old by fastforce
  show ?case
    unfolding tr using d notin head rest by (auto simp: j)
qed

lemma run_inj:
  assumes "cache_valid st" and "inj_on (renderModelCache st) (dom (renderModelCache st))"
  shows "inj_on (renderModelCache (fst (run E sc p v (st, out) js)))
           (dom (renderModelCache (fst (run E sc p v (st, out) js))))"
  using assms
proof (induction js arbitrary: st out)
  case Nil
  then show ?case by (simp add: run_Nil)
next
  case (Cons j js)
  obtain s l t where j: "j = (s, l, t)" by (cases j)
  obtain st1 out1 where vs: "visit_surface E sc p v (st, out) (s, l, t) = (st1, out1)"
    by (cases "visit_surface E sc p v (st, out) (s, l, t)")
  have "cache_valid st1"
    using visit_surface_extends [OF vs Cons.prems(1)] by simp
  from Cons.IH [OF this visit_surface_inj [OF vs Cons.prems]]
  show ?case by (simp add: run_Cons j vs)
qed

text \<open>A slot whose surface id is not visited is left as it is.\<close>

lemma run_untouched:
  assumes "cache_valid X" and "inj_on (renderModelCache X) (dom (renderModelCache X))"
    and "renderModelCache X k = Some a" and "\<forall>j\<in>set js. surface_id (fst j) \<noteq> k"
  shows "renderModels (fst (run E sc p v (X, out) js)) ! a = renderModels X ! a"
  using assms
proof (induction js arbitrary: X out)
  case Nil
  then show ?case by (simp add: run_Nil)
next
  case (Cons j js)
  obtain s l t where j: "j = (s, l, t)" by (cases j)
  obtain a' st1 where rs: "renderSurface E sc s t p v X = (a', st1)"
    by (cases "renderSurface E sc s t p v X")
  obtain X1 out1 where vs: "visit_surface E sc p v (X, out) (s, l, t) = (X1, out1)"
    by (cases "visit_surface E sc p v (X, out) (s, l, t)")
  note valid = Cons.prems(1) and inj = Cons.prems(2) and slot = Cons.prems(3)
  note f = visit_surface_ref [OF valid rs vs]
  have a: "a < length (renderModels X)"
    using valid slot by (auto simp: cache_valid_def)
  have k: "surface_id s \<noteq> k"
    using Cons.prems(4) by (simp add: j)
  have "a' \<noteq> a"
    using rs
  proof (cases rule: renderSurface_cases)
    case fresh
    then show ?thesis using a by simp
  next
    case hit
    then show ?thesis using inj slot k by (auto simp: inj_on_def dom_def)
  qed
  then have same: "renderModels X1 ! a = renderModels X ! a"
    using f(9) a by simp
  have slot1: "renderModelCache X1 k = Some a"
    using f(7) slot by (simp add: extends_def)
  have "renderModels (fst (run E sc p v (X1, out1) js)) ! a = renderModels X1 ! a"
    by (rule Cons.IH [OF f(6) visit_surface_inj [OF vs valid inj] slot1])
      (use Cons.prems(4) in simp)
  then show ?case
    by (simp add: run_Cons j vs same)
qed

text \<open>
  The render model of a surface id is, at the end, as the last visit of that id left
  it.
\<close>

lemma last_visit_state:
  assumes c: "cache sc" and valid: "cache_valid X"
    and inj: "inj_on (renderModelCache X) (dom (renderModelCache X))"
    and n: "n < length js" and jn: "js ! n = (s, l, t)"
    and last: "\<forall>m. n < m \<and> m < length js \<longrightarrow> surface_id (fst (js ! m)) \<noteq> surface_id s"
  shows "\<exists>B. built_ok E p v B \<and> rm_transform B = t \<and>
     is_visible sc s B = snd (trace E sc p v X js ! n) \<and>
     renderModels (fst (run E sc p v (X, []) js)) ! fst (trace E sc p v X js ! n)
       = settle sc l s B"
proof -
  define js1 where "js1 = take n js"
  define js2 where "js2 = drop (Suc n) js"
  have js: "js = js1 @ (s, l, t) # js2"
    using id_take_nth_drop [OF n] by (simp add: js1_def js2_def jn)
  have len1: "length js1 = n"
    using n by (simp add: js1_def)
  define Xm where "Xm = fst (run E sc p v (X, []) js1)"
  have vXm: "cache_valid Xm" and iXm: "inj_on (renderModelCache Xm) (dom (renderModelCache Xm))"
    unfolding Xm_def by (rule run_extends' [OF valid], rule run_inj [OF valid inj])
  obtain a st1 where rs: "renderSurface E sc s t p v Xm = (a, st1)"
    by (cases "renderSurface E sc s t p v Xm")
  obtain X1 out1 where vs: "visit_surface E sc p v (Xm, []) (s, l, t) = (X1, out1)"
    by (cases "visit_surface E sc p v (Xm, []) (s, l, t)")
  note f = visit_surface_ref [OF vXm rs vs]
  have tn: "trace E sc p v X js ! n = (a, is_visible sc s (renderModels st1 ! a))"
    by (simp add: js trace_append nth_append len1 Xm_def [symmetric] trace_Cons rs)
  have fin: "fst (run E sc p v (X, []) js) = fst (run E sc p v (X1, []) js2)"
  proof -
    obtain Xa outa where ra: "run E sc p v (X, []) js1 = (Xa, outa)"
      by (cases "run E sc p v (X, []) js1")
    have Xa: "Xa = Xm" by (simp add: Xm_def ra)
    have "fst (run E sc p v (X, []) js) = fst (run E sc p v (Xm, outa) ((s, l, t) # js2))"
      by (simp only: js run_append ra Xa)
    also have "\<dots> = fst (run E sc p v (Xm, []) ((s, l, t) # js2))"
      by (rule run_store_out)
    also have "\<dots> = fst (run E sc p v (X1, []) js2)"
      by (simp only: run_Cons_store vs fst_conv)
    finally show ?thesis .
  qed
  have "\<forall>j\<in>set js2. surface_id (fst j) \<noteq> surface_id s"
  proof
    fix j assume "j \<in> set js2"
    then obtain m where m: "m < length js2" and jm: "js2 ! m = j"
      by (auto simp: in_set_conv_nth)
    have "js ! (Suc n + m) = j" and "Suc n + m < length js"
      using m jm n by (simp_all add: js2_def)
    moreover have "n < Suc n + m" by simp
    ultimately show "surface_id (fst j) \<noteq> surface_id s"
      using last by blast
  qed
  then have "renderModels (fst (run E sc p v (X1, []) js2)) ! a = renderModels X1 ! a"
    by (rule run_untouched [OF f(6) visit_surface_inj [OF vs vXm iXm] f(5) [OF c]])
  then show ?thesis
    using f(2,3,4) by (auto simp: tn fin intro!: exI [of _ "renderModels st1 ! a"])
qed

lemma count_list_twice:
  assumes "i < j" "j < length tr" "tr ! i = (a, True)" "tr ! j = (a, True)"
  shows "2 \<le> count_list (map fst (filter snd tr)) a"
proof -
  have i: "i < length tr" using assms by simp
  define ys where "ys = drop (Suc i) tr"
  have tr: "tr = take i tr @ (a, True) # ys"
    using id_take_nth_drop [OF i] assms(3) by (simp add: ys_def)
  have "ys ! (j - Suc i) = (a, True)" "j - Suc i < length ys"
    using assms by (simp_all add: ys_def)
  then have "(a, True) \<in> set ys"
    by (metis nth_mem)
  then have "a \<in> set (map fst (filter snd ys))"
    by force
  then have "1 \<le> count_list (map fst (filter snd ys)) a"
    using count_list_0_iff [of "map fst (filter snd ys)" a] by linarith
  then show ?thesis
    by (subst tr) simp
qed

section \<open>The depth sort\<close>

lemmas example_defs = example_externals_def example_scene_def example_store_def
  revisit_scene_def twice_scene_def nan_scene_def empty_surface_def num_le_def
  near_surface_def far_surface_def pt_def example_material_def translate_def centroid_def
  in_clip_volume_def

lemmas render_defs = render_def render_unsorted_def walk_def shapeVisitor_def
  visit_surface_def renderSurface_def new_RenderModel_def RenderModel_update_def
  is_visible_def shade_and_round_def compose_projection_def Matrix_copy_def
  Matrix_multiply_def Array_sort_def depth_compare_def SortCompare_def Point_round_def

lemma insert_sorted_mset: "mset (insert_sorted cmp a bs) = add_mset a (mset bs)"
  by (induction bs) simp_all

lemma Array_sort_mset_any: "mset (Array_sort cmp xs) = mset xs"
  by (induction xs) (simp_all add: Array_sort_def insert_sorted_mset)

lemma set_Array_sort: "set (Array_sort cmp xs) = set xs"
  using Array_sort_mset_any [of cmp xs] by (metis set_mset_mset)

lemma Array_sort_mset: "mset (Array_sort (depth_compare st) xs) = mset xs"
  by (rule Array_sort_mset_any)

lemma Array_sort_set: "set (Array_sort (depth_compare st) xs) = set xs"
  by (rule set_Array_sort)

text \<open>
  The comparison of two keys by subtraction: an element moves behind another one only
  if the other one's key is greater, so never behind an equal key.
\<close>

lemma compare_self: "num_le (SortCompare (\<lambda>a b. num_sub (key b) (key a)) x x) (Fin 0)"
  by (cases "key x") (simp_all add: SortCompare_def num_le_def)














lemma render_unfold:
  "render E sc st =
     (Array_sort (depth_compare (fst (render_unsorted E sc st))) (snd (render_unsorted E sc st)),
      fst (render_unsorted E sc st))"
  by (simp add: render_def split: prod.split)

section \<open>The matrices of a frame\<close>

lemma frame_store_fields [simp]:
  "renderModels (frame_store E sc st) = renderModels st"
  "renderModelCache (frame_store E sc st) = renderModelCache st"
  "length (matrices (frame_store E sc st)) = Suc (length (matrices st))"
  by (simp_all add: frame_store_def compose_projection_def Matrix_copy_def Matrix_multiply_def)

lemma frame_store_old:
  "a < length (matrices st) \<Longrightarrow> matrices (frame_store E sc st) ! a = matrices st ! a"
  by (simp add: frame_store_def compose_projection_def Matrix_copy_def Matrix_multiply_def
      nth_append)

lemma frame_projection_value:
  assumes "matrices_ok sc st"
  shows "frame_projection E sc st =
     matrix_product E
       (matrix_product E (matrices st ! cam_m (camera sc)) (matrices st ! prescale (viewport sc)))
       (matrices st ! cam_projection (camera sc))"
  using assms
  by (simp add: frame_projection_def compose_projection_def Matrix_copy_def Matrix_multiply_def
      matrices_ok_def nth_append)

lemma frame_viewport_value:
  assumes "matrices_ok sc st"
  shows "frame_viewport E sc st = matrices st ! postscale (viewport sc)"
  using assms
  by (simp add: frame_viewport_def compose_projection_def Matrix_copy_def Matrix_multiply_def
      matrices_ok_def nth_append)

lemma render_unsorted_run:
  "render_unsorted E sc st =
     run E sc (frame_projection E sc st) (frame_viewport E sc st) (frame_store E sc st, []) (jobs sc)"
  by (simp add: render_unsorted_def walk_run frame_projection_def frame_viewport_def
      frame_store_def split: prod.split)

lemma frame_store_valid: "cache_valid (frame_store E sc st) = cache_valid st"
  by (simp add: cache_valid_def)

lemma render_store:
  "snd (render E sc st) =
     fst (run E sc (frame_projection E sc st) (frame_viewport E sc st) (frame_store E sc st, []) (jobs sc))"
  by (simp add: render_unfold render_unsorted_run)

lemma render_output:
  "fst (render E sc st) =
     Array_sort (depth_compare (snd (render E sc st)))
       (map fst (filter snd (trace E sc (frame_projection E sc st) (frame_viewport E sc st)
          (frame_store E sc st) (jobs sc))))"
  by (simp add: render_unfold render_unsorted_run)
    (subst run_trace, simp)

lemma render_matrices:
  "a < length (matrices st) \<Longrightarrow> matrices (snd (render E sc st)) ! a = matrices st ! a"
proof -
  assume a: "a < length (matrices st)"
  obtain st' out' where r: "run E sc (frame_projection E sc st) (frame_viewport E sc st)
      (frame_store E sc st, []) (jobs sc) = (st', out')"
    by (cases "run E sc (frame_projection E sc st) (frame_viewport E sc st)
      (frame_store E sc st, []) (jobs sc)")
  have "matrices st' = matrices (frame_store E sc st)"
    by (rule run_matrices [OF r])
  then show ?thesis
    using a by (simp add: render_store r frame_store_old)
qed

section \<open>Properties of a whole render call\<close>

lemma update_matrices [simp]:
  "rm_projection (RenderModel_update E rm t p v) = p"
  "rm_viewport (RenderModel_update E rm t p v) = v"
  by (simp_all add: RenderModel_update_def split: prod.split)

lemma new_fields [simp]:
  "rm_projection (new_RenderModel E s t p v) = p"
  "rm_viewport (new_RenderModel E s t p v) = v"
  "fill (new_RenderModel E s t p v) = None"
  "stroke (new_RenderModel E s t p v) = None"
  by (simp_all add: new_RenderModel_def split: prod.split)

text \<open>The two invariants of the pushed render models, for a whole \<open>render\<close> call.\<close>

lemma render_pushed_invariant:
  assumes valid: "cache_valid st"
    and shade: "\<And>s l t B. (s, l, t) \<in> set (jobs sc) \<Longrightarrow>
        built_ok E (frame_projection E sc st) (frame_viewport E sc st) B \<Longrightarrow>
        rm_transform B = t \<Longrightarrow> is_visible sc s B \<Longrightarrow> Q (shade_and_round sc l s B)"
    and upd: "\<And>rm t. Q rm \<Longrightarrow>
        Q (RenderModel_update E rm t (frame_projection E sc st) (frame_viewport E sc st))"
  shows "\<forall>a\<in>set (fst (render E sc st)).
     a < length (renderModels (snd (render E sc st))) \<and> Q (renderModels (snd (render E sc st)) ! a)"
proof -
  obtain st' out' where r: "run E sc (frame_projection E sc st) (frame_viewport E sc st)
      (frame_store E sc st, []) (jobs sc) = (st', out')"
    by (cases "run E sc (frame_projection E sc st) (frame_viewport E sc st)
      (frame_store E sc st, []) (jobs sc)")
  have "\<forall>a\<in>set out'. a < length (renderModels st') \<and> Q (renderModels st' ! a)"
    by (rule run_pushed_invariant [where P = Q, OF r _ _ shade upd]) (simp_all add: frame_store_valid valid)
  then show ?thesis
    by (simp add: render_unfold render_unsorted_run r Array_sort_set)
qed

lemma render_pushed_no_revisit:
  assumes valid: "cache_valid st" and inj: "cache_inj st"
    and norev: "\<not> cache sc \<or> distinct (map (\<lambda>j. surface_id (fst j)) (jobs sc))"
    and shade: "\<And>s l t B. (s, l, t) \<in> set (jobs sc) \<Longrightarrow>
        built_ok E (frame_projection E sc st) (frame_viewport E sc st) B \<Longrightarrow>
        rm_transform B = t \<Longrightarrow> is_visible sc s B \<Longrightarrow> Q (shade_and_round sc l s B)"
  shows "\<forall>a\<in>set (fst (render E sc st)).
     a < length (renderModels (snd (render E sc st))) \<and> Q (renderModels (snd (render E sc st)) ! a)"
proof -
  obtain st' out' where r: "run E sc (frame_projection E sc st) (frame_viewport E sc st)
      (frame_store E sc st, []) (jobs sc) = (st', out')"
    by (cases "run E sc (frame_projection E sc st) (frame_viewport E sc st)
      (frame_store E sc st, []) (jobs sc)")
  have "\<forall>a\<in>set out'. a < length (renderModels st') \<and> Q (renderModels st' ! a)"
    by (rule run_pushed_no_revisit [where P = Q, OF r _ _ _ _ shade])
      (use valid inj norev in \<open>simp_all add: frame_store_valid cache_inj_def\<close>)
  then show ?thesis
    by (simp add: render_unfold render_unsorted_run r Array_sort_set)
qed

lemma new_geometry:
  "geometry E s t p v =
     (transformed (new_RenderModel E s t p v), projected (new_RenderModel E s t p v),
      inFrustrum (new_RenderModel E s t p v))"
  by (simp add: new_RenderModel_def split: prod.split)

lemma update_geometry:
  "geometry E (rm_surface rm) t p v =
     (transformed (RenderModel_update E rm t p v), projected (RenderModel_update E rm t p v),
      inFrustrum (RenderModel_update E rm t p v))"
  by (simp add: RenderModel_update_def split: prod.split)

lemma shade_and_round_shaded:
  "shaded_by sc l s (transformed rm) (shade_and_round sc l s rm)"
  by (simp add: shaded_by_def shade_and_round_def Let_def split: option.split)

lemma shaded_by_update:
  "shaded_by sc l s rd rm \<Longrightarrow> shaded_by sc l s rd (RenderModel_update E rm t p v)"
  by (simp add: shaded_by_def)

lemma shaded_by_present:
  "shaded_by sc l s rd rm \<Longrightarrow>
     (fill rm \<noteq> None \<longleftrightarrow> fillMaterial s \<noteq> None) \<and>
     (stroke rm \<noteq> None \<longleftrightarrow> strokeMaterial s \<noteq> None)"
  by (auto simp: shaded_by_def split: option.splits)

lemma Math_round_integer: "is_integer (Math_round r) \<or> \<not> is_finite r"
  by (cases r) (simp_all add: is_integer_def is_finite_def)

lemma Math_round_finite: "is_finite (Math_round r) = is_finite r"
  by (cases r) (simp_all add: is_finite_def)

lemma Math_round_fixed: "Math_round (Math_round r) = Math_round r"
  by (cases r) simp_all

lemma Point_round_integer:
  "(is_integer (p_x (Point_round q)) \<or> \<not> is_finite (p_x q)) \<and>
   (is_integer (p_y (Point_round q)) \<or> \<not> is_finite (p_y q)) \<and>
   (is_integer (p_z (Point_round q)) \<or> \<not> is_finite (p_z q))"
  by (simp add: Point_round_def Math_round_integer)

lemma shade_and_round_points:
  "points (projected (shade_and_round sc l s rm)) =
     (if fractionalPoints sc then points (projected rm)
      else map Point_round (points (projected rm)))"
  by (simp add: shade_and_round_projected)

lemma shade_and_round_built_ok:
  "fractionalPoints sc \<Longrightarrow> built_ok E p v rm \<Longrightarrow> built_ok E p v (shade_and_round sc l s rm)"
  by (simp add: built_ok_def shade_and_round_projected)

lemma shade_and_round_visible:
  "is_visible sc s' (shade_and_round sc l s rm) = is_visible sc s' rm"
  by (simp add: is_visible_def)

lemma render_trace_output:
  "fst (render E sc st) =
     Array_sort (depth_compare (snd (render E sc st))) (map fst (filter snd (render_trace E sc st)))"
  by (simp add: render_output render_trace_def)

lemma render_trace_distinct:
  assumes "cache_valid st" "cache_inj st"
    "\<not> cache sc \<or> distinct (map (\<lambda>j. surface_id (fst j)) (jobs sc))"
  shows "distinct (map fst (render_trace E sc st))"
  unfolding render_trace_def
  using trace_distinct [of "frame_store E sc st" sc "jobs sc" E "frame_projection E sc st"
      "frame_viewport E sc st"] assms
  by (simp add: frame_store_valid cache_inj_def)

lemma distinct_fst_filter:
  assumes "distinct (map fst tr)" "i < length tr"
  shows "fst (tr ! i) \<in> set (map fst (filter snd tr)) \<longleftrightarrow> snd (tr ! i)"
proof
  assume "fst (tr ! i) \<in> set (map fst (filter snd tr))"
  then obtain e where e: "e \<in> set tr" "snd e" "fst e = fst (tr ! i)"
    by auto
  then obtain k where k: "k < length tr" "tr ! k = e"
    by (auto simp: in_set_conv_nth)
  have "map fst tr ! k = map fst tr ! i"
    using k e(3) assms(2) by simp
  then have "k = i"
    using nth_eq_iff_index_eq [OF assms(1), of k i] assms(2) k(1) by simp
  then show "snd (tr ! i)" using k e by simp
next
  assume "snd (tr ! i)"
  then have "tr ! i \<in> set (filter snd tr)"
    using assms(2) by simp
  then have "fst (tr ! i) \<in> fst ` set (filter snd tr)"
    by (rule imageI)
  then show "fst (tr ! i) \<in> set (map fst (filter snd tr))"
    by (simp only: set_map)
qed

lemma insert_sorted_cong:
  "cmp a a = cmp' a a \<Longrightarrow> \<forall>b\<in>set bs. cmp a b = cmp' a b \<Longrightarrow>
     insert_sorted cmp a bs = insert_sorted cmp' a bs"
  by (induction bs) (simp_all add: SortCompare_def)

lemma Array_sort_cong:
  "\<forall>a\<in>set xs. \<forall>b\<in>set xs. cmp a b = cmp' a b \<Longrightarrow> Array_sort cmp xs = Array_sort cmp' xs"
proof (induction xs)
  case Nil
  show ?case by (simp add: Array_sort_def)
next
  case (Cons x xs)
  have IH: "Array_sort cmp xs = Array_sort cmp' xs"
    using Cons by simp
  have "insert_sorted cmp x (Array_sort cmp' xs) = insert_sorted cmp' x (Array_sort cmp' xs)"
    by (rule insert_sorted_cong) (use Cons.prems in \<open>simp_all add: set_Array_sort\<close>)
  then show ?case
    using IH by (simp add: Array_sort_def)
qed

lemma matrices_ok_render: "matrices_ok sc st \<Longrightarrow> matrices_ok sc (snd (render E sc st))"
proof -
  assume ok: "matrices_ok sc st"
  obtain st' out' where r: "run E sc (frame_projection E sc st) (frame_viewport E sc st)
      (frame_store E sc st, []) (jobs sc) = (st', out')"
    by (cases "run E sc (frame_projection E sc st) (frame_viewport E sc st)
      (frame_store E sc st, []) (jobs sc)")
  have "matrices st' = matrices (frame_store E sc st)"
    by (rule run_matrices [OF r])
  then have "length (matrices (snd (render E sc st))) = Suc (length (matrices st))"
    by (simp add: render_store r)
  then show ?thesis using ok by (simp add: matrices_ok_def)
qed

lemma frame_matrices_again:
  assumes ok: "matrices_ok sc st"
  shows "frame_projection E sc (snd (render E sc st)) = frame_projection E sc st"
    and "frame_viewport E sc (snd (render E sc st)) = frame_viewport E sc st"
proof -
  have same: "a < length (matrices st) \<Longrightarrow> matrices (snd (render E sc st)) ! a = matrices st ! a" for a
    by (rule render_matrices)
  show "frame_projection E sc (snd (render E sc st)) = frame_projection E sc st"
    using ok same
    by (simp add: frame_projection_value [OF matrices_ok_render [OF ok]]
        frame_projection_value [OF ok] matrices_ok_def)
  show "frame_viewport E sc (snd (render E sc st)) = frame_viewport E sc st"
    using ok same
    by (simp add: frame_viewport_value [OF matrices_ok_render [OF ok]]
        frame_viewport_value [OF ok] matrices_ok_def)
qed

lemma extends_frame_store: "extends st (frame_store E sc st)"
  by (simp add: extends_def)

text \<open>
  With the cache, a run allocates one render model for each surface id that has no slot
  yet, and none for an id that has one.
\<close>

lemma run_allocations:
  assumes c: "cache sc"
  shows "cache_valid X \<Longrightarrow>
     length (renderModels (fst (run E sc p v (X, out) js))) =
       length (renderModels X) +
       card ((\<lambda>j. surface_id (fst j)) ` set js - dom (renderModelCache X))"
proof (induction js arbitrary: X out)
  case Nil
  show ?case by (simp add: run_Nil)
next
  case (Cons j js)
  obtain s l t where j: "j = (s, l, t)" by (cases j)
  obtain X1 out1 where vs: "visit_surface E sc p v (X, out) (s, l, t) = (X1, out1)"
    by (cases "visit_surface E sc p v (X, out) (s, l, t)")
  have v1: "cache_valid X1"
    using visit_surface_extends [OF vs Cons.prems] by simp
  let ?ids = "(\<lambda>j. surface_id (fst j)) ` set js"
  have IH: "length (renderModels (fst (run E sc p v (X1, out1) js))) =
       length (renderModels X1) + card (?ids - dom (renderModelCache X1))"
    by (rule Cons.IH [OF v1])
  have step: "length (renderModels X1) + card (?ids - dom (renderModelCache X1)) =
      length (renderModels X) + card (insert (surface_id s) ?ids - dom (renderModelCache X))"
  proof (cases rule: visit_surface_cases [OF vs Cons.prems])
    case (1 B)
    have miss: "surface_id s \<notin> dom (renderModelCache X)"
      and dom1: "dom (renderModelCache X1) = insert (surface_id s) (dom (renderModelCache X))"
      using 1(5) c by auto
    have "insert (surface_id s) ?ids - dom (renderModelCache X)
        = insert (surface_id s) (?ids - dom (renderModelCache X1))"
      using miss dom1 by auto
    moreover have "surface_id s \<notin> ?ids - dom (renderModelCache X1)"
      using dom1 by simp
    moreover have "finite (?ids - dom (renderModelCache X1))"
      by simp
    ultimately show ?thesis
      using 1(2) by simp
  next
    case (2 a B)
    have "insert (surface_id s) ?ids - dom (renderModelCache X) = ?ids - dom (renderModelCache X)"
      using 2(2) by auto
    then show ?thesis
      using 2 by simp
  qed
  show ?case
    using IH step by (simp add: run_Cons j vs)
qed

lemma render_valid:
  assumes "cache_valid st"
  shows "cache_valid (snd (render E sc st))" "extends st (snd (render E sc st))"
proof -
  have v: "cache_valid (frame_store E sc st)"
    by (simp add: frame_store_valid assms)
  show "cache_valid (snd (render E sc st))"
    unfolding render_store by (rule run_extends' [OF v])
  have "extends (frame_store E sc st) (snd (render E sc st))"
    unfolding render_store by (rule run_extends' [OF v])
  then show "extends st (snd (render E sc st))"
    by (simp add: extends_def)
qed

lemma render_inj:
  assumes "cache_valid st" "cache_inj st"
  shows "cache_inj (snd (render E sc st))"
  unfolding render_store cache_inj_def
  by (rule run_inj) (use assms in \<open>simp_all add: frame_store_valid cache_inj_def\<close>)

text \<open>The render model at a slot after \<open>render\<close>, when visit \<open>n\<close> was the last of its id.\<close>

lemma render_last_visit:
  assumes c: "cache sc" and valid: "cache_valid st" and inj: "cache_inj st"
    and n: "n < length (jobs sc)"
    and last: "\<forall>m. n < m \<and> m < length (jobs sc) \<longrightarrow>
        surface_id (fst (jobs sc ! m)) \<noteq> surface_id (fst (jobs sc ! n))"
  shows "\<exists>B. built_ok E (frame_projection E sc st) (frame_viewport E sc st) B \<and>
     rm_transform B = snd (snd (jobs sc ! n)) \<and>
     is_visible sc (fst (jobs sc ! n)) B = snd (render_trace E sc st ! n) \<and>
     renderModels (snd (render E sc st)) ! fst (render_trace E sc st ! n)
       = settle sc (fst (snd (jobs sc ! n))) (fst (jobs sc ! n)) B"
proof -
  obtain s l t where j: "jobs sc ! n = (s, l, t)" by (cases "jobs sc ! n")
  have "\<exists>B. built_ok E (frame_projection E sc st) (frame_viewport E sc st) B \<and>
     rm_transform B = t \<and>
     is_visible sc s B = snd (trace E sc (frame_projection E sc st) (frame_viewport E sc st)
        (frame_store E sc st) (jobs sc) ! n) \<and>
     renderModels (fst (run E sc (frame_projection E sc st) (frame_viewport E sc st)
        (frame_store E sc st, []) (jobs sc)))
       ! fst (trace E sc (frame_projection E sc st) (frame_viewport E sc st)
        (frame_store E sc st) (jobs sc) ! n)
       = settle sc l s B"
    by (rule last_visit_state [OF c _ _ n j])
      (use valid inj last in \<open>simp_all add: frame_store_valid cache_inj_def j\<close>)
  then show ?thesis
    by (simp add: render_store render_trace_def j)
qed

lemma mset_eq_count_list: "mset xs = mset ys \<Longrightarrow> count_list xs a = count_list ys a"
  by (metis count_mset)

lemma settle_points:
  "points (projected (settle sc l s B)) =
     (if is_visible sc s B \<and> \<not> fractionalPoints sc then map Point_round (points (projected B))
      else points (projected B))"
  by (simp add: settle_def shade_and_round_points)

text \<open>A flushed cache is well-formed, as is the empty cache of a new scene.\<close>

lemma flushCache_ok: "cache_valid (flushCache st) \<and> cache_inj (flushCache st)"
  by (simp add: flushCache_def cache_valid_def cache_inj_def)

subsection \<open>The last visit of a render model\<close>

text \<open>A render model whose reference no visit returns is left as it is.\<close>

lemma run_unreferenced:
  assumes "cache_valid X" and "a < length (renderModels X)"
    and "\<forall>e\<in>set (trace E sc p v X js). fst e \<noteq> a"
  shows "renderModels (fst (run E sc p v (X, []) js)) ! a = renderModels X ! a"
  using assms
proof (induction js arbitrary: X)
  case Nil
  then show ?case by (simp add: run_Nil)
next
  case (Cons j js)
  obtain s l t where j: "j = (s, l, t)" by (cases j)
  obtain a' st1 where rs: "renderSurface E sc s t p v X = (a', st1)"
    by (cases "renderSurface E sc s t p v X")
  obtain X1 out1 where vs: "visit_surface E sc p v (X, []) (s, l, t) = (X1, out1)"
    by (cases "visit_surface E sc p v (X, []) (s, l, t)")
  note f = visit_surface_ref [OF Cons.prems(1) rs vs]
  have tr: "trace E sc p v X (j # js) =
      (a', is_visible sc s (renderModels st1 ! a')) # trace E sc p v X1 js"
    by (simp add: j trace_Cons rs vs)
  have ne: "a' \<noteq> a" and rest: "\<forall>e\<in>set (trace E sc p v X1 js). fst e \<noteq> a"
    using Cons.prems(3) unfolding tr by simp_all
  have same: "renderModels X1 ! a = renderModels X ! a"
    using f(9) ne Cons.prems(2) by simp
  have a1: "a < length (renderModels X1)"
    using f(7) Cons.prems(2) by (simp add: extends_def)
  have "renderModels (fst (run E sc p v (X1, []) js)) ! a = renderModels X1 ! a"
    by (rule Cons.IH [OF f(6) a1 rest])
  then show ?case
    by (simp add: j run_Cons_store vs same)
qed

text \<open>
  The render model at a reference is, at the end, as the last visit that returned this
  reference left it.
\<close>

lemma last_reference_state:
  assumes valid: "cache_valid X"
    and n: "n < length js" and jn: "js ! n = (s, l, t)"
    and last: "\<forall>m. n < m \<and> m < length js \<longrightarrow>
        fst (trace E sc p v X js ! m) \<noteq> fst (trace E sc p v X js ! n)"
  shows "\<exists>B. built_ok E p v B \<and> rm_transform B = t \<and>
     is_visible sc s B = snd (trace E sc p v X js ! n) \<and>
     renderModels (fst (run E sc p v (X, []) js)) ! fst (trace E sc p v X js ! n)
       = settle sc l s B"
proof -
  define js1 where "js1 = take n js"
  define js2 where "js2 = drop (Suc n) js"
  have js: "js = js1 @ (s, l, t) # js2"
    using id_take_nth_drop [OF n] by (simp add: js1_def js2_def jn)
  have len1: "length js1 = n"
    using n by (simp add: js1_def)
  define Xm where "Xm = fst (run E sc p v (X, []) js1)"
  have vXm: "cache_valid Xm"
    unfolding Xm_def by (rule run_extends' [OF valid])
  obtain a st1 where rs: "renderSurface E sc s t p v Xm = (a, st1)"
    by (cases "renderSurface E sc s t p v Xm")
  obtain X1 out1 where vs: "visit_surface E sc p v (Xm, []) (s, l, t) = (X1, out1)"
    by (cases "visit_surface E sc p v (Xm, []) (s, l, t)")
  note f = visit_surface_ref [OF vXm rs vs]
  have tr: "trace E sc p v X js =
      trace E sc p v X js1 @ (a, is_visible sc s (renderModels st1 ! a)) # trace E sc p v X1 js2"
    by (simp add: js trace_append Xm_def [symmetric] trace_Cons rs vs)
  have tn: "trace E sc p v X js ! n = (a, is_visible sc s (renderModels st1 ! a))"
    by (simp add: tr nth_append len1)
  have fin: "fst (run E sc p v (X, []) js) = fst (run E sc p v (X1, []) js2)"
  proof -
    obtain Xa outa where ra: "run E sc p v (X, []) js1 = (Xa, outa)"
      by (cases "run E sc p v (X, []) js1")
    have Xa: "Xa = Xm" by (simp add: Xm_def ra)
    have "fst (run E sc p v (X, []) js) = fst (run E sc p v (Xm, outa) ((s, l, t) # js2))"
      by (simp only: js run_append ra Xa)
    also have "\<dots> = fst (run E sc p v (Xm, []) ((s, l, t) # js2))"
      by (rule run_store_out)
    also have "\<dots> = fst (run E sc p v (X1, []) js2)"
      by (simp only: run_Cons_store vs fst_conv)
    finally show ?thesis .
  qed
  have "\<forall>e\<in>set (trace E sc p v X1 js2). fst e \<noteq> a"
  proof
    fix e assume "e \<in> set (trace E sc p v X1 js2)"
    then obtain k where k: "k < length js2" and ek: "trace E sc p v X1 js2 ! k = e"
      by (auto simp: in_set_conv_nth)
    have "trace E sc p v X js ! (Suc n + k) = e"
      by (simp add: tr nth_append len1 ek)
    moreover have "Suc n + k < length js"
      using k by (simp add: js len1)
    moreover have "n < Suc n + k" by simp
    ultimately have "fst e \<noteq> fst (trace E sc p v X js ! n)"
      using last by blast
    then show "fst e \<noteq> a" by (simp add: tn)
  qed
  then have "renderModels (fst (run E sc p v (X1, []) js2)) ! a = renderModels X1 ! a"
    by (rule run_unreferenced [OF f(6) f(1)])
  then show ?thesis
    using f(2,3,4) by (auto simp: tn fin intro!: exI [of _ "renderModels st1 ! a"])
qed

lemma length_render_trace [simp]: "length (render_trace E sc st) = length (jobs sc)"
  by (simp add: render_trace_def)

lemma render_last_reference:
  assumes valid: "cache_valid st"
    and n: "n < length (jobs sc)"
    and last: "\<forall>m. n < m \<and> m < length (jobs sc) \<longrightarrow>
        fst (render_trace E sc st ! m) \<noteq> fst (render_trace E sc st ! n)"
  shows "\<exists>B. built_ok E (frame_projection E sc st) (frame_viewport E sc st) B \<and>
     rm_transform B = snd (snd (jobs sc ! n)) \<and>
     is_visible sc (fst (jobs sc ! n)) B = snd (render_trace E sc st ! n) \<and>
     renderModels (snd (render E sc st)) ! fst (render_trace E sc st ! n)
       = settle sc (fst (snd (jobs sc ! n))) (fst (jobs sc ! n)) B"
proof -
  obtain s l t where j: "jobs sc ! n = (s, l, t)" by (cases "jobs sc ! n")
  have "\<exists>B. built_ok E (frame_projection E sc st) (frame_viewport E sc st) B \<and>
     rm_transform B = t \<and>
     is_visible sc s B = snd (trace E sc (frame_projection E sc st) (frame_viewport E sc st)
        (frame_store E sc st) (jobs sc) ! n) \<and>
     renderModels (fst (run E sc (frame_projection E sc st) (frame_viewport E sc st)
        (frame_store E sc st, []) (jobs sc)))
       ! fst (trace E sc (frame_projection E sc st) (frame_viewport E sc st)
        (frame_store E sc st) (jobs sc) ! n)
       = settle sc l s B"
    by (rule last_reference_state [OF _ n j])
      (use valid last in \<open>simp_all add: frame_store_valid render_trace_def\<close>)
  then show ?thesis
    by (simp add: render_store render_trace_def j)
qed

text \<open>
  With the cache, the last visit of a surface id is the last visit that returns the
  reference of its render model.
\<close>

lemma last_of_id_last_of_reference:
  assumes c: "cache sc" and valid: "cache_valid st" and inj: "cache_inj st"
    and n: "n < length (jobs sc)" and m: "n < m" "m < length (jobs sc)"
    and ids: "surface_id (fst (jobs sc ! m)) \<noteq> surface_id (fst (jobs sc ! n))"
  shows "fst (render_trace E sc st ! m) \<noteq> fst (render_trace E sc st ! n)"
proof
  assume eq: "fst (render_trace E sc st ! m) = fst (render_trace E sc st ! n)"
  have vX: "cache_valid (frame_store E sc st)"
    by (simp add: frame_store_valid valid)
  have slot: "renderModelCache (snd (render E sc st)) (surface_id (fst (jobs sc ! k)))
      = Some (fst (render_trace E sc st ! k))" if "k < length (jobs sc)" for k
    using trace_slots [OF c vX that, of E "frame_projection E sc st" "frame_viewport E sc st"]
    by (simp add: render_store render_trace_def)
  have "inj_on (renderModelCache (snd (render E sc st)))
      (dom (renderModelCache (snd (render E sc st))))"
    using render_inj [OF valid inj, of E sc] by (simp add: cache_inj_def)
  then have "surface_id (fst (jobs sc ! m)) = surface_id (fst (jobs sc ! n))"
    using slot [OF m(2)] slot [OF n] eq by (auto simp: inj_on_def dom_def)
  then show False using ids by simp
qed

lemma last_visit_iff:
  "last_visit tr n \<longleftrightarrow>
     n < length tr \<and> (\<forall>m. n < m \<and> m < length tr \<longrightarrow> fst (tr ! m) \<noteq> fst (tr ! n))"
proof -
  have "fst (tr ! n) \<in> set (map fst (drop (Suc n) tr)) \<longleftrightarrow>
      (\<exists>m. n < m \<and> m < length tr \<and> fst (tr ! m) = fst (tr ! n))"
  proof
    assume "fst (tr ! n) \<in> set (map fst (drop (Suc n) tr))"
    then obtain k where k: "k < length (drop (Suc n) tr)"
      and e: "fst (drop (Suc n) tr ! k) = fst (tr ! n)"
      by (auto simp: in_set_conv_nth)
    have "n < Suc n + k" "Suc n + k < length tr" "fst (tr ! (Suc n + k)) = fst (tr ! n)"
      using k e by simp_all
    then show "\<exists>m. n < m \<and> m < length tr \<and> fst (tr ! m) = fst (tr ! n)"
      by blast
  next
    assume "\<exists>m. n < m \<and> m < length tr \<and> fst (tr ! m) = fst (tr ! n)"
    then obtain m where m: "n < m" "m < length tr" "fst (tr ! m) = fst (tr ! n)"
      by blast
    have "m - Suc n < length (drop (Suc n) tr)" "drop (Suc n) tr ! (m - Suc n) = tr ! m"
      using m by simp_all
    then have "tr ! m \<in> set (drop (Suc n) tr)"
      by (metis nth_mem)
    then have "fst (tr ! m) \<in> fst ` set (drop (Suc n) tr)"
      by (rule imageI)
    then show "fst (tr ! n) \<in> set (map fst (drop (Suc n) tr))"
      by (simp add: m(3))
  qed
  then show ?thesis
    by (auto simp: last_visit_def)
qed

text \<open>The state in which \<open>render\<close> leaves the render model of a last visit.\<close>

lemma render_last_visit_state:
  assumes valid: "cache_valid st" and last: "last_visit (render_trace E sc st) n"
  shows "\<exists>B. built_ok E (frame_projection E sc st) (frame_viewport E sc st) B \<and>
     rm_transform B = snd (snd (jobs sc ! n)) \<and>
     is_visible sc (fst (jobs sc ! n)) B = snd (render_trace E sc st ! n) \<and>
     renderModels (snd (render E sc st)) ! fst (render_trace E sc st ! n)
       = settle sc (fst (snd (jobs sc ! n))) (fst (jobs sc ! n)) B"
  using last render_last_reference [OF valid, of n sc E]
  by (simp add: last_visit_iff)

lemma last_visit_of_id:
  assumes c: "cache sc" and valid: "cache_valid st" and inj: "cache_inj st"
    and n: "n < length (jobs sc)"
    and last: "\<forall>m. n < m \<and> m < length (jobs sc) \<longrightarrow>
        surface_id (fst (jobs sc ! m)) \<noteq> surface_id (fst (jobs sc ! n))"
  shows "last_visit (render_trace E sc st) n"
  using n last last_of_id_last_of_reference [OF c valid inj n, of _ E]
  by (simp add: last_visit_iff)

lemma last_visit_no_revisit:
  assumes valid: "cache_valid st" and inj: "cache_inj st"
    and norev: "\<not> cache sc \<or> distinct (map (\<lambda>j. surface_id (fst j)) (jobs sc))"
    and n: "n < length (jobs sc)"
  shows "last_visit (render_trace E sc st) n"
proof -
  have d: "distinct (map fst (render_trace E sc st))"
    by (rule render_trace_distinct [OF valid inj norev])
  have "fst (render_trace E sc st ! m) \<noteq> fst (render_trace E sc st ! n)"
    if "n < m" "m < length (jobs sc)" for m
    using nth_eq_iff_index_eq [OF d, of m n] that n by simp
  then show ?thesis
    using n by (simp add: last_visit_iff)
qed

lemma render_output_set:
  "a \<in> set (fst (render E sc st)) \<longleftrightarrow> (a, True) \<in> set (render_trace E sc st)"
proof -
  have "set (fst (render E sc st)) = set (map fst (filter snd (render_trace E sc st)))"
    by (subst render_trace_output) (simp only: Array_sort_set)
  then show ?thesis by force
qed

lemma settle_visible: "is_visible sc s' (settle sc l s B) = is_visible sc s' B"
  by (simp add: settle_def shade_and_round_visible)

section \<open>The example scenes, evaluated\<close>

lemma example_render_output:
  "fst (render example_externals example_scene example_store) = [1, 0]"
  by (simp add: example_defs render_defs)

lemma example_store_ok:
  "matrices_ok example_scene example_store" "cache_valid example_store" "cache_inj example_store"
  by (simp_all add: matrices_ok_def cache_valid_def cache_inj_def example_scene_def
      example_store_def)

lemma example_first_visit:
  "renderSurface example_externals example_scene near_surface (pt 0 0 0) (pt 0 0 0) (pt 0 0 0)
     example_store =
   (0, example_store\<lparr>renderModels :=
          [new_RenderModel example_externals near_surface (pt 0 0 0) (pt 0 0 0) (pt 0 0 0)],
        renderModelCache := [1 \<mapsto> 0]\<rparr>)"
  by (simp add: renderSurface_def example_scene_def example_store_def near_surface_def)

lemma example_render_store:
  "renderModels (snd (render example_externals example_scene example_store)) =
     [\<lparr>rm_surface = near_surface, rm_transform = pt 0 0 0, rm_projection = pt (1/8) (1/8) (1/8),
       rm_viewport = pt 100 100 0,
       transformed = \<lparr>points = [pt (1/4) (1/4) (- 1/2)], normal = pt 0 0 (- 1),
                       barycenter = pt (1/4) (1/4) (- 1/2)\<rparr>,
       projected = \<lparr>points = [pt 100 100 0], normal = pt 0 0 (- 1),
                     barycenter = pt (803/8) (803/8) (- 3/8)\<rparr>,
       inFrustrum = True, fill = Some 16, stroke = None\<rparr>,
      \<lparr>rm_surface = far_surface, rm_transform = pt 0 0 0, rm_projection = pt (1/8) (1/8) (1/8),
       rm_viewport = pt 100 100 0,
       transformed = \<lparr>points = [pt (1/4) (3/4) (1/2)], normal = pt 0 0 (- 1),
                       barycenter = pt (1/4) (3/4) (1/2)\<rparr>,
       projected = \<lparr>points = [pt 100 101 1], normal = pt 0 0 (- 1),
                     barycenter = pt (803/8) (807/8) (5/8)\<rparr>,
       inFrustrum = True, fill = None, stroke = Some 26\<rparr>]"
  by (simp add: example_defs render_defs)

lemma example_jobs: "jobs example_scene = [(near_surface, [7], pt 0 0 0), (far_surface, [7], pt 0 0 0)]"
  by (simp add: jobs_def example_scene_def)

lemma example_trace: "render_trace example_externals example_scene example_store = [(0, True), (1, True)]"
  by (simp add: render_trace_def frame_projection_def frame_viewport_def frame_store_def
      example_jobs)
    (simp add: example_defs render_defs)

lemma revisit_render:
  "render example_externals revisit_scene example_store =
    ([0],
     \<lparr>matrices = [pt 0 0 (1/8), pt 0 (1/8) 0, pt (1/8) 0 0, pt 100 100 0, pt (1/8) (1/8) (1/8)],
      renderModels =
        [\<lparr>rm_surface = near_surface, rm_transform = pt 5 0 0, rm_projection = pt (1/8) (1/8) (1/8),
          rm_viewport = pt 100 100 0,
          transformed = \<lparr>points = [pt (21/4) (1/4) (- 1/2)], normal = pt 0 0 (- 1),
                          barycenter = pt (21/4) (1/4) (- 1/2)\<rparr>,
          projected = \<lparr>points = [pt (843/8) (803/8) (- 3/8)], normal = pt 0 0 (- 1),
                        barycenter = pt (843/8) (803/8) (- 3/8)\<rparr>,
          inFrustrum = False, fill = Some 16, stroke = None\<rparr>],
      renderModelCache = [1 \<mapsto> 0]\<rparr>)"
  by (simp add: example_defs render_defs)

lemma revisit_trace:
  "render_trace example_externals revisit_scene example_store = [(0, True), (0, False)]"
  by (simp add: render_trace_def frame_projection_def frame_viewport_def frame_store_def
      jobs_def)
    (simp add: example_defs render_defs)

lemma twice_render:
  "render example_externals twice_scene example_store =
    ([0, 0],
     \<lparr>matrices = [pt 0 0 (1/8), pt 0 (1/8) 0, pt (1/8) 0 0, pt 100 100 0, pt (1/8) (1/8) (1/8)],
      renderModels =
        [\<lparr>rm_surface = near_surface, rm_transform = pt (1/4) 0 (1/4),
          rm_projection = pt (1/8) (1/8) (1/8), rm_viewport = pt 100 100 0,
          transformed = \<lparr>points = [pt (1/2) (1/4) (- 1/4)], normal = pt 0 0 (- 1),
                          barycenter = pt (1/2) (1/4) (- 1/4)\<rparr>,
          projected = \<lparr>points = [pt 101 100 0], normal = pt 0 0 (- 1),
                        barycenter = pt (805/8) (803/8) (- 1/8)\<rparr>,
          inFrustrum = True, fill = Some 16, stroke = None\<rparr>],
      renderModelCache = [1 \<mapsto> 0]\<rparr>)"
  by (simp add: example_defs render_defs)

lemma twice_jobs:
  "jobs twice_scene = [(near_surface, [7], pt 0 0 0), (near_surface, [7], pt (1/4) 0 (1/4))]"
  by (simp add: jobs_def twice_scene_def)

lemma twice_trace:
  "render_trace example_externals twice_scene example_store = [(0, True), (0, True)]"
  by (simp add: render_trace_def frame_projection_def frame_viewport_def frame_store_def
      twice_jobs)
    (simp add: example_defs render_defs)


section \<open>The properties of the specification\<close>

subsection \<open>The depth sort of the output\<close>




subsection \<open>The visibility filter\<close>

text \<open>
  C2, as amended. Each visit pushes the reference that \<open>_renderSurface\<close> returned iff the
  render model passes the test at that visit: it is inside the frustum and backface
  culling is off for the scene, or off for the visited surface, or the projected normal
  has a negative z component (a comparison that is false on \<open>NaN\<close>). The output holds one
  entry for every visit that passes and no other entry, so a render model is in the
  output iff some visit of it passed. For the last visit of a render model in the call,
  the model as \<open>render\<close> leaves it passes the test of the visited surface iff it passed
  at that visit, and if it passed, the model is in the output and inside the frustum.
  A visit is the last one of its render model when the cache is off, or when no later
  visit has the same surface id.
\<close>

theorem visibility_filter:
  "(is_visible sc s rm \<longleftrightarrow>
      (\<not> cullBackfaces sc \<or> \<not> surface_cullBackfaces s \<or>
       num_lt (p_z (normal (projected rm))) (Fin 0)) \<and>
      inFrustrum rm) \<and>
   (renderSurface E sc s t p v st = (a, st1) \<longrightarrow>
      snd (visit_surface E sc p v (st, out) (s, l, t)) =
        (if is_visible sc s (renderModels st1 ! a) then out @ [a] else out)) \<and>
   mset (fst (render E sc st)) = mset (map fst (filter snd (render_trace E sc st))) \<and>
   (b \<in> set (fst (render E sc st)) \<longleftrightarrow> (b, True) \<in> set (render_trace E sc st)) \<and>
   (cache_valid st \<and> last_visit (render_trace E sc st) n \<longrightarrow>
      (is_visible sc (fst (jobs sc ! n))
          (renderModels (snd (render E sc st)) ! fst (render_trace E sc st ! n))
        \<longleftrightarrow> snd (render_trace E sc st ! n)) \<and>
      (snd (render_trace E sc st ! n) \<longrightarrow>
         fst (render_trace E sc st ! n) \<in> set (fst (render E sc st)) \<and>
         inFrustrum (renderModels (snd (render E sc st)) ! fst (render_trace E sc st ! n)))) \<and>
   (cache_valid st \<and> cache_inj st \<and> n < length (jobs sc) \<and>
    (\<not> cache sc \<or>
     (\<forall>m. n < m \<and> m < length (jobs sc) \<longrightarrow>
        surface_id (fst (jobs sc ! m)) \<noteq> surface_id (fst (jobs sc ! n)))) \<longrightarrow>
      last_visit (render_trace E sc st) n)"
proof -
  let ?tr = "render_trace E sc st"
  let ?rm = "renderModels (snd (render E sc st)) ! fst (?tr ! n)"
  have 1: "is_visible sc s rm \<longleftrightarrow>
      (\<not> cullBackfaces sc \<or> \<not> surface_cullBackfaces s \<or>
       num_lt (p_z (normal (projected rm))) (Fin 0)) \<and>
      inFrustrum rm"
    by (simp add: is_visible_def)
  have 2: "renderSurface E sc s t p v st = (a, st1) \<longrightarrow>
      snd (visit_surface E sc p v (st, out) (s, l, t)) =
        (if is_visible sc s (renderModels st1 ! a) then out @ [a] else out)"
    by (simp add: visit_surface_settle)
  have 3: "mset (fst (render E sc st)) = mset (map fst (filter snd ?tr))"
    by (subst render_trace_output) (simp only: Array_sort_mset)
  have 4: "b \<in> set (fst (render E sc st)) \<longleftrightarrow> (b, True) \<in> set ?tr"
    by (rule render_output_set)
  have 5: "(is_visible sc (fst (jobs sc ! n)) ?rm \<longleftrightarrow> snd (?tr ! n)) \<and>
      (snd (?tr ! n) \<longrightarrow> fst (?tr ! n) \<in> set (fst (render E sc st)) \<and> inFrustrum ?rm)"
    if valid: "cache_valid st" and last: "last_visit ?tr n"
  proof -
    obtain B where B: "is_visible sc (fst (jobs sc ! n)) B = snd (?tr ! n)"
      and rm: "?rm = settle sc (fst (snd (jobs sc ! n))) (fst (jobs sc ! n)) B"
      using render_last_visit_state [OF valid last] by blast
    have vis: "is_visible sc (fst (jobs sc ! n)) ?rm \<longleftrightarrow> snd (?tr ! n)"
      by (simp only: rm settle_visible B)
    have n: "n < length ?tr"
      using last by (simp add: last_visit_def)
    have "fst (?tr ! n) \<in> set (fst (render E sc st))" if "snd (?tr ! n)"
    proof -
      have "?tr ! n = (fst (?tr ! n), True)"
        using that by (simp add: prod_eq_iff)
      then have "(fst (?tr ! n), True) \<in> set ?tr"
        using nth_mem [OF n] by simp
      then show ?thesis
        by (simp only: render_output_set)
    qed
    moreover have "inFrustrum ?rm" if "snd (?tr ! n)"
      using vis that by (simp add: is_visible_def)
    ultimately show ?thesis
      using vis by blast
  qed
  have 6: "last_visit ?tr n"
    if valid: "cache_valid st" and inj: "cache_inj st" and n: "n < length (jobs sc)"
      and c: "\<not> cache sc \<or>
        (\<forall>m. n < m \<and> m < length (jobs sc) \<longrightarrow>
           surface_id (fst (jobs sc ! m)) \<noteq> surface_id (fst (jobs sc ! n)))"
  proof (cases "cache sc")
    case True
    then show ?thesis
      using c last_visit_of_id [OF True valid inj n] by blast
  next
    case False
    then show ?thesis
      using last_visit_no_revisit [OF valid inj _ n] by blast
  qed
  show ?thesis
    using 1 2 3 4 5 6 by blast
qed

theorem visibility_filter_witness:
  "cache twice_scene \<and> cache_valid example_store \<and> cache_inj example_store \<and>
   render_trace example_externals twice_scene example_store = [(0, True), (0, True)] \<and>
   last_visit (render_trace example_externals twice_scene example_store) 1 \<and>
   fst (render example_externals twice_scene example_store) = [0, 0] \<and>
   inFrustrum (renderModels (snd (render example_externals twice_scene example_store)) ! 0)"
proof -
  note t = visibility_filter [of twice_scene _ _ example_externals _ _ _ example_store _ _ _ _ _ 1]
  have n: "(1::nat) < length (jobs twice_scene)"
    by (simp add: twice_jobs)
  have later: "\<forall>m. (1::nat) < m \<and> m < length (jobs twice_scene) \<longrightarrow>
      surface_id (fst (jobs twice_scene ! m)) \<noteq> surface_id (fst (jobs twice_scene ! 1))"
    by (simp add: twice_jobs)
  have last: "last_visit (render_trace example_externals twice_scene example_store) 1"
    using t example_store_ok(2,3) n later by blast
  have passed: "snd (render_trace example_externals twice_scene example_store ! 1)"
    by (simp add: twice_trace)
  have "inFrustrum (renderModels (snd (render example_externals twice_scene example_store))
      ! fst (render_trace example_externals twice_scene example_store ! 1))"
    using t example_store_ok(2) last passed by blast
  then have "inFrustrum (renderModels (snd (render example_externals twice_scene example_store)) ! 0)"
    by (simp add: twice_trace)
  moreover have "cache twice_scene"
    by (simp add: twice_scene_def)
  moreover have "fst (render example_externals twice_scene example_store) = [0, 0]"
    by (simp add: twice_render)
  ultimately show ?thesis
    using last by (simp add: example_store_ok twice_trace)
qed

theorem visibility_filter_counterexample:
  "cache revisit_scene \<and>
   render_trace example_externals revisit_scene example_store = [(0, True), (0, False)] \<and>
   fst (render example_externals revisit_scene example_store) = [0] \<and>
   \<not> inFrustrum (renderModels (snd (render example_externals revisit_scene example_store)) ! 0)"
  by (simp add: revisit_render revisit_trace) (simp add: revisit_scene_def)

subsection \<open>Building or updating a render model\<close>

text \<open>
  C3. \<open>_renderSurface\<close> by cases. Without the cache it allocates a new render model, at
  a reference that no object had, and leaves the cache alone. With the cache and no
  slot for the surface's id it allocates a new render model and stores its reference
  under that id. With the cache and a slot, it returns the slot's reference, replaces
  the record there by its update and allocates nothing. A new render model holds the
  surface and the three matrices and the geometry derived from them, with no shading
  result; an update holds the new three matrices and the geometry derived from them
  for the record's own surface, and keeps surface and shading results.
\<close>

theorem renderSurface_builds_or_updates:
  "(\<not> cache sc \<longrightarrow>
      renderSurface E sc s t p v st =
        (length (renderModels st),
         st\<lparr>renderModels := renderModels st @ [new_RenderModel E s t p v]\<rparr>)) \<and>
   (cache sc \<and> renderModelCache st (surface_id s) = None \<longrightarrow>
      renderSurface E sc s t p v st =
        (length (renderModels st),
         st\<lparr>renderModels := renderModels st @ [new_RenderModel E s t p v],
            renderModelCache := (renderModelCache st)(surface_id s \<mapsto> length (renderModels st))\<rparr>)) \<and>
   (\<forall>a. cache sc \<and> renderModelCache st (surface_id s) = Some a \<longrightarrow>
      renderSurface E sc s t p v st =
        (a, st\<lparr>renderModels :=
                (renderModels st)[a := RenderModel_update E (renderModels st ! a) t p v]\<rparr>) \<and>
      length (renderModels (snd (renderSurface E sc s t p v st))) = length (renderModels st) \<and>
      renderModelCache (snd (renderSurface E sc s t p v st)) = renderModelCache st \<and>
      (a < length (renderModels st) \<longrightarrow>
         renderModels (snd (renderSurface E sc s t p v st)) ! a
           = RenderModel_update E (renderModels st ! a) t p v)) \<and>
   (rm_surface (new_RenderModel E s t p v) = s \<and>
    rm_transform (new_RenderModel E s t p v) = t \<and>
    rm_projection (new_RenderModel E s t p v) = p \<and>
    rm_viewport (new_RenderModel E s t p v) = v \<and>
    geometry E s t p v =
      (transformed (new_RenderModel E s t p v), projected (new_RenderModel E s t p v),
       inFrustrum (new_RenderModel E s t p v)) \<and>
    fill (new_RenderModel E s t p v) = None \<and> stroke (new_RenderModel E s t p v) = None) \<and>
   (rm_surface (RenderModel_update E rm t p v) = rm_surface rm \<and>
    rm_transform (RenderModel_update E rm t p v) = t \<and>
    rm_projection (RenderModel_update E rm t p v) = p \<and>
    rm_viewport (RenderModel_update E rm t p v) = v \<and>
    geometry E (rm_surface rm) t p v =
      (transformed (RenderModel_update E rm t p v), projected (RenderModel_update E rm t p v),
       inFrustrum (RenderModel_update E rm t p v)) \<and>
    fill (RenderModel_update E rm t p v) = fill rm \<and>
    stroke (RenderModel_update E rm t p v) = stroke rm)"
proof -
  have "\<not> cache sc \<longrightarrow>
      renderSurface E sc s t p v st =
        (length (renderModels st),
         st\<lparr>renderModels := renderModels st @ [new_RenderModel E s t p v]\<rparr>)"
    by (simp add: renderSurface_def)
  moreover have "cache sc \<and> renderModelCache st (surface_id s) = None \<longrightarrow>
      renderSurface E sc s t p v st =
        (length (renderModels st),
         st\<lparr>renderModels := renderModels st @ [new_RenderModel E s t p v],
            renderModelCache := (renderModelCache st)(surface_id s \<mapsto> length (renderModels st))\<rparr>)"
    by (simp add: renderSurface_def)
  moreover have "\<forall>a. cache sc \<and> renderModelCache st (surface_id s) = Some a \<longrightarrow>
      renderSurface E sc s t p v st =
        (a, st\<lparr>renderModels :=
                (renderModels st)[a := RenderModel_update E (renderModels st ! a) t p v]\<rparr>) \<and>
      length (renderModels (snd (renderSurface E sc s t p v st))) = length (renderModels st) \<and>
      renderModelCache (snd (renderSurface E sc s t p v st)) = renderModelCache st \<and>
      (a < length (renderModels st) \<longrightarrow>
         renderModels (snd (renderSurface E sc s t p v st)) ! a
           = RenderModel_update E (renderModels st ! a) t p v)"
    by (simp add: renderSurface_def)
  ultimately show ?thesis
    using new_geometry [of E s t p v] update_geometry [of E rm t p v]
    by simp
qed

theorem renderSurface_builds_or_updates_witness:
  "\<not> cache (example_scene\<lparr>cache := False\<rparr>) \<and>
   fst (renderSurface example_externals (example_scene\<lparr>cache := False\<rparr>) near_surface
          (pt 0 0 0) (pt 0 0 0) (pt 0 0 0) example_store) = 0 \<and>
   cache example_scene \<and> renderModelCache example_store (surface_id near_surface) = None \<and>
   renderModelCache
     (snd (renderSurface example_externals example_scene near_surface
          (pt 0 0 0) (pt 0 0 0) (pt 0 0 0) example_store)) 1 = Some 0 \<and>
   renderSurface example_externals example_scene near_surface (pt 1 0 0) (pt 0 0 0) (pt 0 0 0)
     (snd (renderSurface example_externals example_scene near_surface
          (pt 0 0 0) (pt 0 0 0) (pt 0 0 0) example_store)) =
   (0, example_store\<lparr>renderModels :=
          [RenderModel_update example_externals
             (new_RenderModel example_externals near_surface (pt 0 0 0) (pt 0 0 0) (pt 0 0 0))
             (pt 1 0 0) (pt 0 0 0) (pt 0 0 0)],
        renderModelCache := [1 \<mapsto> 0]\<rparr>)"
proof -
  let ?off = "example_scene\<lparr>cache := False\<rparr>"
  let ?st1 = "snd (renderSurface example_externals example_scene near_surface
          (pt 0 0 0) (pt 0 0 0) (pt 0 0 0) example_store)"
  have off: "\<not> cache ?off" by simp
  have on: "cache example_scene" by (simp add: example_scene_def)
  have miss: "renderModelCache example_store (surface_id near_surface) = None"
    by (simp add: example_store_def)
  have sid: "surface_id near_surface = 1"
    by (simp add: near_surface_def)
  have hit: "renderModelCache ?st1 (surface_id near_surface) = Some 0"
    by (simp add: example_first_visit sid)
  have 1: "renderSurface example_externals ?off near_surface (pt 0 0 0) (pt 0 0 0) (pt 0 0 0)
        example_store =
      (length (renderModels example_store),
       example_store\<lparr>renderModels := renderModels example_store @
          [new_RenderModel example_externals near_surface (pt 0 0 0) (pt 0 0 0) (pt 0 0 0)]\<rparr>)"
    using renderSurface_builds_or_updates [of ?off example_externals near_surface "pt 0 0 0"
        "pt 0 0 0" "pt 0 0 0" example_store] off
    by blast
  have 3: "renderSurface example_externals example_scene near_surface (pt 1 0 0) (pt 0 0 0)
        (pt 0 0 0) ?st1 =
      (0, ?st1\<lparr>renderModels := (renderModels ?st1)
            [0 := RenderModel_update example_externals (renderModels ?st1 ! 0)
                    (pt 1 0 0) (pt 0 0 0) (pt 0 0 0)]\<rparr>)"
    using renderSurface_builds_or_updates [of example_scene example_externals near_surface
        "pt 1 0 0" "pt 0 0 0" "pt 0 0 0" ?st1] on hit
    by blast
  show ?thesis
    unfolding 3 using 1 off on miss
    by (simp add: example_first_visit sid) (simp add: example_store_def)
qed

subsection \<open>Rendering twice\<close>

text \<open>
  C4. With the cache on, a second \<open>render\<close> of the unchanged scene returns the same
  list of references as the first, in the same order; every returned render model has
  after the second call the projected geometry it had after the first; and every
  visited surface keeps its cache slot. That \<open>render\<close> is deterministic is built into
  the model: it is a function of the scene and the store.
\<close>

theorem render_twice:
  assumes c: "cache sc" and valid: "cache_valid st" and ok: "matrices_ok sc st"
  shows "fst (render E sc (snd (render E sc st))) = fst (render E sc st) \<and>
     (\<forall>a\<in>set (fst (render E sc st)).
        projected (renderModels (snd (render E sc (snd (render E sc st)))) ! a)
          = projected (renderModels (snd (render E sc st)) ! a)) \<and>
     (\<forall>i<length (jobs sc).
        renderModelCache (snd (render E sc st)) (surface_id (fst (jobs sc ! i)))
          = Some (fst (render_trace E sc st ! i)) \<and>
        renderModelCache (snd (render E sc (snd (render E sc st)))) (surface_id (fst (jobs sc ! i)))
          = Some (fst (render_trace E sc st ! i)))"
proof -
  let ?p = "frame_projection E sc st" and ?v = "frame_viewport E sc st"
  let ?X = "frame_store E sc st"
  obtain Xf out1 where r1: "run E sc ?p ?v (?X, []) (jobs sc) = (Xf, out1)"
    by (cases "run E sc ?p ?v (?X, []) (jobs sc)")
  have st1: "snd (render E sc st) = Xf"
    by (simp add: render_store r1)
  have o1: "fst (render E sc st) = Array_sort (depth_compare Xf) out1"
    by (simp add: render_unfold render_unsorted_run r1)
  have vX: "cache_valid ?X"
    by (simp add: frame_store_valid valid)
  have vXf: "cache_valid Xf"
    using run_extends [OF r1 vX] by simp
  let ?Y = "frame_store E sc Xf"
  have vY: "cache_valid ?Y"
    by (simp add: frame_store_valid vXf)
  from run_again [OF c vX vY r1 extends_frame_store]
  obtain Yf where r2: "run E sc ?p ?v (?Y, []) (jobs sc) = (Yf, out1)"
    and eYf: "extends ?Y Yf"
    and same: "\<forall>a\<in>set out1. a < length (renderModels Xf) \<and>
        projected (renderModels Yf ! a) = projected (renderModels Xf ! a)"
    by blast
  have fp: "frame_projection E sc Xf = ?p" "frame_viewport E sc Xf = ?v"
    using frame_matrices_again [OF ok, of E] by (simp_all add: st1)
  have st2: "snd (render E sc Xf) = Yf"
    by (simp add: render_store fp r2)
  have o2: "fst (render E sc Xf) = Array_sort (depth_compare Yf) out1"
    by (simp add: render_unfold render_unsorted_run fp r2)
  have "Array_sort (depth_compare Yf) out1 = Array_sort (depth_compare Xf) out1"
    by (rule Array_sort_cong) (use same in \<open>simp add: depth_compare_def\<close>)
  then have A: "fst (render E sc (snd (render E sc st))) = fst (render E sc st)"
    by (simp add: st1 o1 o2)
  have B: "\<forall>a\<in>set (fst (render E sc st)).
        projected (renderModels (snd (render E sc (snd (render E sc st)))) ! a)
          = projected (renderModels (snd (render E sc st)) ! a)"
    using same by (simp add: st1 st2 o1 Array_sort_set)
  have C: "renderModelCache Xf (surface_id (fst (jobs sc ! i)))
          = Some (fst (render_trace E sc st ! i)) \<and>
        renderModelCache Yf (surface_id (fst (jobs sc ! i)))
          = Some (fst (render_trace E sc st ! i))" if "i < length (jobs sc)" for i
  proof -
    have 1: "renderModelCache Xf (surface_id (fst (jobs sc ! i)))
          = Some (fst (render_trace E sc st ! i))"
      using trace_slots [OF c vX that, of E ?p ?v] by (simp add: r1 render_trace_def)
    then have "renderModelCache Yf (surface_id (fst (jobs sc ! i)))
          = Some (fst (render_trace E sc st ! i))"
      using eYf by (simp add: extends_def)
    with 1 show ?thesis by simp
  qed
  show ?thesis
    using A B C by (simp add: st1 st2)
qed

theorem render_twice_witness:
  "cache example_scene \<and> cache_valid example_store \<and> matrices_ok example_scene example_store \<and>
   fst (render example_externals example_scene example_store) = [1, 0] \<and>
   fst (render example_externals example_scene
          (snd (render example_externals example_scene example_store))) = [1, 0] \<and>
   projected (renderModels (snd (render example_externals example_scene
          (snd (render example_externals example_scene example_store)))) ! 1)
     = \<lparr>points = [pt 100 101 1], normal = pt 0 0 (- 1), barycenter = pt (803/8) (807/8) (5/8)\<rparr>"
proof -
  have c: "cache example_scene"
    by (simp add: example_scene_def)
  note t = render_twice [OF c example_store_ok(2) example_store_ok(1), of example_externals]
  have 1: "fst (render example_externals example_scene
          (snd (render example_externals example_scene example_store))) = [1, 0]"
    using t by (simp add: example_render_output)
  have "1 \<in> set (fst (render example_externals example_scene example_store))"
    by (simp add: example_render_output)
  then have "projected (renderModels (snd (render example_externals example_scene
          (snd (render example_externals example_scene example_store)))) ! 1)
     = projected (renderModels (snd (render example_externals example_scene example_store)) ! 1)"
    using t by blast
  then show ?thesis
    using c 1 by (simp add: example_store_ok example_render_output example_render_store)
qed

subsection \<open>The composed projection\<close>

text \<open>
  C5. The projection of a frame is the camera's matrix multiplied by the viewport's
  prescale and the result multiplied by the camera's projection, in this order,
  each product being the one \<open>multiply\<close> computes; the viewport matrix is the viewport's
  postscale. These two values are what \<open>render\<close> hands to the walk, and every render
  model it returns holds them.
\<close>

theorem render_projection_composed:
  assumes "matrices_ok sc st"
  shows "frame_projection E sc st =
       matrix_product E
         (matrix_product E (matrices st ! cam_m (camera sc)) (matrices st ! prescale (viewport sc)))
         (matrices st ! cam_projection (camera sc)) \<and>
     frame_viewport E sc st = matrices st ! postscale (viewport sc) \<and>
     render_unsorted E sc st =
       walk E sc (frame_projection E sc st) (frame_viewport E sc st) (frame_store E sc st) \<and>
     (cache_valid st \<longrightarrow>
       (\<forall>a\<in>set (fst (render E sc st)).
          rm_projection (renderModels (snd (render E sc st)) ! a) = frame_projection E sc st \<and>
          rm_viewport (renderModels (snd (render E sc st)) ! a) = frame_viewport E sc st))"
proof -
  have "\<forall>a\<in>set (fst (render E sc st)).
          a < length (renderModels (snd (render E sc st))) \<and>
          (rm_projection (renderModels (snd (render E sc st)) ! a) = frame_projection E sc st \<and>
           rm_viewport (renderModels (snd (render E sc st)) ! a) = frame_viewport E sc st)"
    if "cache_valid st"
    by (rule render_pushed_invariant [OF that]) (simp_all add: built_ok_def)
  then show ?thesis
    using frame_projection_value [OF assms, of E] frame_viewport_value [OF assms, of E]
    by (simp add: render_unsorted_run walk_run)
qed

theorem render_projection_composed_witness:
  "matrices_ok example_scene example_store \<and> cache_valid example_store \<and>
   frame_projection example_externals example_scene example_store = pt (1/8) (1/8) (1/8) \<and>
   frame_viewport example_externals example_scene example_store = pt 100 100 0 \<and>
   fst (render example_externals example_scene example_store) = [1, 0] \<and>
   rm_projection (renderModels (snd (render example_externals example_scene example_store)) ! 1)
     = pt (1/8) (1/8) (1/8)"
proof -
  note t = render_projection_composed [OF example_store_ok(1), of example_externals]
  have p: "frame_projection example_externals example_scene example_store = pt (1/8) (1/8) (1/8)"
    by (subst conjunct1 [OF t]) (simp add: example_defs)
  have v: "frame_viewport example_externals example_scene example_store = pt 100 100 0"
    by (subst conjunct1 [OF conjunct2 [OF t]]) (simp add: example_defs)
  have "1 \<in> set (fst (render example_externals example_scene example_store))"
    by (simp add: example_render_output)
  then have "rm_projection (renderModels (snd (render example_externals example_scene example_store)) ! 1)
      = frame_projection example_externals example_scene example_store"
    using t example_store_ok(2) by blast
  then show ?thesis
    by (simp add: p v example_render_output example_store_ok)
qed

subsection \<open>Rounding of the projected points\<close>

text \<open>
  C6, as amended. \<open>Point.round\<close> leaves an integer in every coordinate that was finite
  (\<open>Math.round\<close> returns \<open>NaN\<close> and the infinities as they are). A render model that
  passes the visibility test is shaded from its transformed geometry, which rounding
  never touches, and then has its projected points rounded unless \<open>fractionalPoints\<close> is
  true, in which case they stay as projected. When \<open>fractionalPoints\<close> is false and the
  last visit of a render model in the call passes the test, the model is in the output,
  its projected points when \<open>render\<close> returns are the rounded points of the geometry
  projected from its surface, its transform and the frame's matrices, and every
  coordinate of them is an integer or not finite. A visit is the last one of its render
  model when the cache is off, or when no later visit has the same surface id. When
  \<open>fractionalPoints\<close> is true, every render model in the output has exactly the geometry
  projected from its surface, transform and the frame's matrices.
\<close>

theorem rounding_of_projected_points:
  "((is_integer (p_x (Point_round q)) \<or> \<not> is_finite (p_x q)) \<and>
    (is_integer (p_y (Point_round q)) \<or> \<not> is_finite (p_y q)) \<and>
    (is_integer (p_z (Point_round q)) \<or> \<not> is_finite (p_z q))) \<and>
   points (projected (shade_and_round sc l s rm)) =
     (if fractionalPoints sc then points (projected rm)
      else map Point_round (points (projected rm))) \<and>
   shaded_by sc l s (transformed rm) (shade_and_round sc l s rm) \<and>
   transformed (shade_and_round sc l s rm) = transformed rm \<and>
   (cache_valid st \<and> \<not> fractionalPoints sc \<and> last_visit (render_trace E sc st) n \<and>
    snd (render_trace E sc st ! n) \<longrightarrow>
      fst (render_trace E sc st ! n) \<in> set (fst (render E sc st)) \<and>
      points (projected (renderModels (snd (render E sc st)) ! fst (render_trace E sc st ! n)))
        = map Point_round (points (fst (snd (geometry E
            (rm_surface (renderModels (snd (render E sc st)) ! fst (render_trace E sc st ! n)))
            (rm_transform (renderModels (snd (render E sc st)) ! fst (render_trace E sc st ! n)))
            (frame_projection E sc st) (frame_viewport E sc st))))) \<and>
      (\<forall>q\<in>set (points (projected
            (renderModels (snd (render E sc st)) ! fst (render_trace E sc st ! n)))).
         (is_integer (p_x q) \<or> \<not> is_finite (p_x q)) \<and>
         (is_integer (p_y q) \<or> \<not> is_finite (p_y q)) \<and>
         (is_integer (p_z q) \<or> \<not> is_finite (p_z q)))) \<and>
   (cache_valid st \<and> cache_inj st \<and> n < length (jobs sc) \<and>
    (\<not> cache sc \<or>
     (\<forall>m. n < m \<and> m < length (jobs sc) \<longrightarrow>
        surface_id (fst (jobs sc ! m)) \<noteq> surface_id (fst (jobs sc ! n)))) \<longrightarrow>
      last_visit (render_trace E sc st) n) \<and>
   (cache_valid st \<and> fractionalPoints sc \<longrightarrow>
      (\<forall>a\<in>set (fst (render E sc st)).
         built_ok E (frame_projection E sc st) (frame_viewport E sc st)
           (renderModels (snd (render E sc st)) ! a)))"
proof -
  let ?tr = "render_trace E sc st"
  let ?rm = "renderModels (snd (render E sc st)) ! fst (?tr ! n)"
  let ?p = "frame_projection E sc st" and ?v = "frame_viewport E sc st"
  have rounded: "fst (?tr ! n) \<in> set (fst (render E sc st)) \<and>
      points (projected ?rm)
        = map Point_round (points (fst (snd (geometry E (rm_surface ?rm) (rm_transform ?rm)
            ?p ?v)))) \<and>
      (\<forall>q\<in>set (points (projected ?rm)).
         (is_integer (p_x q) \<or> \<not> is_finite (p_x q)) \<and>
         (is_integer (p_y q) \<or> \<not> is_finite (p_y q)) \<and>
         (is_integer (p_z q) \<or> \<not> is_finite (p_z q)))"
    if valid: "cache_valid st" and fr: "\<not> fractionalPoints sc" and last: "last_visit ?tr n"
      and passed: "snd (?tr ! n)"
  proof -
    obtain B where ok: "built_ok E ?p ?v B"
      and B: "is_visible sc (fst (jobs sc ! n)) B = snd (?tr ! n)"
      and rm: "?rm = settle sc (fst (snd (jobs sc ! n))) (fst (jobs sc ! n)) B"
      using render_last_visit_state [OF valid last] by blast
    have vis: "is_visible sc (fst (jobs sc ! n)) B"
      using B passed by simp
    have n: "n < length ?tr"
      using last by (simp add: last_visit_def)
    have "?tr ! n = (fst (?tr ! n), True)"
      using passed by (simp add: prod_eq_iff)
    then have "(fst (?tr ! n), True) \<in> set ?tr"
      using nth_mem [OF n] by simp
    then have a: "fst (?tr ! n) \<in> set (fst (render E sc st))"
      by (simp only: render_output_set)
    have pts: "points (projected ?rm) = map Point_round (points (projected B))"
      using vis fr by (simp only: rm settle_points) simp
    have "projected B = fst (snd (geometry E (rm_surface B) (rm_transform B) ?p ?v))"
      using ok by (simp add: built_ok_def)
    moreover have "rm_surface ?rm = rm_surface B" "rm_transform ?rm = rm_transform B"
      by (simp_all only: rm settle_fields)
    ultimately have geo: "points (projected ?rm)
        = map Point_round (points (fst (snd (geometry E (rm_surface ?rm) (rm_transform ?rm)
            ?p ?v))))"
      using pts by simp
    have "(is_integer (p_x q) \<or> \<not> is_finite (p_x q)) \<and>
         (is_integer (p_y q) \<or> \<not> is_finite (p_y q)) \<and>
         (is_integer (p_z q) \<or> \<not> is_finite (p_z q))"
      if "q \<in> set (points (projected ?rm))" for q
    proof -
      have "q \<in> set (map Point_round (points (projected B)))"
        using that by (simp only: pts)
      then obtain q0 where q: "q = Point_round q0"
        by auto
      show ?thesis
        using Math_round_integer [of "p_x q0"] Math_round_integer [of "p_y q0"]
          Math_round_integer [of "p_z q0"]
        by (simp add: q Point_round_def Math_round_finite)
    qed
    then show ?thesis
      using a geo by blast
  qed
  have last: "last_visit ?tr n"
    if valid: "cache_valid st" and inj: "cache_inj st" and n: "n < length (jobs sc)"
      and c: "\<not> cache sc \<or>
        (\<forall>m. n < m \<and> m < length (jobs sc) \<longrightarrow>
           surface_id (fst (jobs sc ! m)) \<noteq> surface_id (fst (jobs sc ! n)))"
  proof (cases "cache sc")
    case True
    then show ?thesis
      using c last_visit_of_id [OF True valid inj n] by blast
  next
    case False
    then show ?thesis
      using last_visit_no_revisit [OF valid inj _ n] by blast
  qed
  have exact: "\<forall>a\<in>set (fst (render E sc st)). built_ok E ?p ?v (renderModels (snd (render E sc st)) ! a)"
    if valid: "cache_valid st" and fr: "fractionalPoints sc"
  proof -
    have "\<forall>a\<in>set (fst (render E sc st)).
        a < length (renderModels (snd (render E sc st))) \<and>
        built_ok E ?p ?v (renderModels (snd (render E sc st)) ! a)"
    proof (rule render_pushed_invariant [where Q = "built_ok E ?p ?v", OF valid])
      fix s l t B
      assume "built_ok E ?p ?v B"
      then show "built_ok E ?p ?v (shade_and_round sc l s B)"
        by (rule shade_and_round_built_ok [OF fr])
    next
      fix rm t
      show "built_ok E ?p ?v (RenderModel_update E rm t ?p ?v)"
        by (rule update_built_ok)
    qed
    then show ?thesis by blast
  qed
  have a: "(is_integer (p_x (Point_round q)) \<or> \<not> is_finite (p_x q)) \<and>
    (is_integer (p_y (Point_round q)) \<or> \<not> is_finite (p_y q)) \<and>
    (is_integer (p_z (Point_round q)) \<or> \<not> is_finite (p_z q))"
    by (rule Point_round_integer)
  have b: "points (projected (shade_and_round sc l s rm)) =
     (if fractionalPoints sc then points (projected rm)
      else map Point_round (points (projected rm)))"
    by (rule shade_and_round_points)
  have c: "shaded_by sc l s (transformed rm) (shade_and_round sc l s rm)"
    "transformed (shade_and_round sc l s rm) = transformed rm"
    using shade_and_round_shaded [of sc l s rm] by simp_all
  show ?thesis
    apply (intro conjI impI)
    using a b c rounded last exact by blast+
qed

theorem rounding_of_projected_points_witness:
  "cache twice_scene \<and> cache_valid example_store \<and> cache_inj example_store \<and>
   \<not> fractionalPoints twice_scene \<and>
   render_trace example_externals twice_scene example_store = [(0, True), (0, True)] \<and>
   last_visit (render_trace example_externals twice_scene example_store) 1 \<and>
   fst (render example_externals twice_scene example_store) = [0, 0] \<and>
   points (projected (renderModels (snd (render example_externals twice_scene example_store)) ! 0))
     = [pt 101 100 0] \<and>
   is_finite (p_x (pt 101 100 0)) \<and> is_integer (p_x (pt 101 100 0))"
proof -
  note t = rounding_of_projected_points
    [of _ twice_scene _ _ _ example_store example_externals 1]
  have fr: "\<not> fractionalPoints twice_scene" and c: "cache twice_scene"
    by (simp_all add: twice_scene_def)
  have n: "(1::nat) < length (jobs twice_scene)"
    by (simp add: twice_jobs)
  have later: "\<forall>m. (1::nat) < m \<and> m < length (jobs twice_scene) \<longrightarrow>
      surface_id (fst (jobs twice_scene ! m)) \<noteq> surface_id (fst (jobs twice_scene ! 1))"
    by (simp add: twice_jobs)
  have last: "last_visit (render_trace example_externals twice_scene example_store) 1"
    using t example_store_ok(2,3) n later by blast
  have passed: "snd (render_trace example_externals twice_scene example_store ! 1)"
    by (simp add: twice_trace)
  have pts: "points (projected (renderModels (snd (render example_externals twice_scene
      example_store)) ! fst (render_trace example_externals twice_scene example_store ! 1)))
      = [pt 101 100 0]"
    by (simp add: twice_trace twice_render)
  then have q: "pt 101 100 0 \<in> set (points (projected (renderModels (snd (render
      example_externals twice_scene example_store))
        ! fst (render_trace example_externals twice_scene example_store ! 1))))"
    by simp
  have fin: "is_finite (p_x (pt 101 100 0))"
    by (simp add: is_finite_def pt_def)
  have "is_integer (p_x (pt 101 100 0)) \<or> \<not> is_finite (p_x (pt 101 100 0))"
    using t example_store_ok(2) fr last passed q by blast
  then have "is_integer (p_x (pt 101 100 0))"
    using fin by simp
  moreover have "fst (render example_externals twice_scene example_store) = [0, 0]"
    by (simp add: twice_render)
  moreover have "points (projected (renderModels (snd (render example_externals twice_scene
      example_store)) ! 0)) = [pt 101 100 0]"
    by (simp add: twice_render)
  ultimately show ?thesis
    using last fr c fin by (simp add: example_store_ok twice_trace)
qed

theorem rounding_counterexample:
  "cache revisit_scene \<and> \<not> fractionalPoints revisit_scene \<and>
   render_trace example_externals revisit_scene example_store = [(0, True), (0, False)] \<and>
   fst (render example_externals revisit_scene example_store) = [0] \<and>
   points (projected (renderModels (snd (render example_externals revisit_scene example_store)) ! 0))
     = [pt (843/8) (803/8) (- 3/8)] \<and>
   is_finite (p_x (pt (843/8) (803/8) (- 3/8))) \<and>
   \<not> is_integer (p_x (pt (843/8) (803/8) (- 3/8)))"
  by (simp add: revisit_render revisit_trace)
    (simp add: revisit_scene_def is_integer_def is_finite_def pt_def)

subsection \<open>Shading\<close>

text \<open>
  C7. A visit whose render model passes the visibility test leaves at the returned
  reference the render model shaded by the visited surface: fill is what the fill
  material gives for the visit's lights, the scene's shader and the transformed
  geometry, and absent if there is no fill material; stroke likewise with the stroke
  material, from the same lights, shader and transformed geometry; neither depends on
  the other. So fill is present iff the surface has a fill material and stroke iff it has
  a stroke material. Every render model that \<open>render\<close> returns carries the shading of
  some visited surface in this sense.
\<close>

theorem shading_of_visible_models:
  "(cache_valid st \<and> renderSurface E sc s t p v st = (a, st1) \<and>
      is_visible sc s (renderModels st1 ! a) \<longrightarrow>
      renderModels (fst (visit_surface E sc p v (st, out) (s, l, t))) ! a
        = shade_and_round sc l s (renderModels st1 ! a)) \<and>
   fill (shade_and_round sc l s rm) =
     (case fillMaterial s of
        None \<Rightarrow> None
      | Some mat \<Rightarrow> Some (mat l (shader sc) (transformed rm))) \<and>
   stroke (shade_and_round sc l s rm) =
     (case strokeMaterial s of
        None \<Rightarrow> None
      | Some mat \<Rightarrow> Some (mat l (shader sc) (transformed rm))) \<and>
   (fill (shade_and_round sc l s rm) \<noteq> None \<longleftrightarrow> fillMaterial s \<noteq> None) \<and>
   (stroke (shade_and_round sc l s rm) \<noteq> None \<longleftrightarrow> strokeMaterial s \<noteq> None) \<and>
   (cache_valid st \<longrightarrow>
      (\<forall>a\<in>set (fst (render E sc st)).
         \<exists>j\<in>set (jobs sc). \<exists>rd.
            shaded_by sc (fst (snd j)) (fst j) rd (renderModels (snd (render E sc st)) ! a) \<and>
            (fill (renderModels (snd (render E sc st)) ! a) \<noteq> None
               \<longleftrightarrow> fillMaterial (fst j) \<noteq> None) \<and>
            (stroke (renderModels (snd (render E sc st)) ! a) \<noteq> None
               \<longleftrightarrow> strokeMaterial (fst j) \<noteq> None)))"
proof -
  have visit: "renderModels (fst (visit_surface E sc p v (st, out) (s, l, t))) ! a
        = shade_and_round sc l s (renderModels st1 ! a)"
    if "cache_valid st" "renderSurface E sc s t p v st = (a, st1)"
      "is_visible sc s (renderModels st1 ! a)"
  proof -
    obtain st' out' where vs: "visit_surface E sc p v (st, out) (s, l, t) = (st', out')"
      by (cases "visit_surface E sc p v (st, out) (s, l, t)")
    show ?thesis
      using visit_surface_ref(2) [OF that(1,2) vs] that(3) by (simp add: vs settle_def)
  qed
  have sh: "shaded_by sc l s (transformed rm) (shade_and_round sc l s rm)"
    by (rule shade_and_round_shaded)
  let ?Q = "\<lambda>rm. \<exists>j\<in>set (jobs sc). \<exists>rd. shaded_by sc (fst (snd j)) (fst j) rd rm"
  have all: "\<forall>a\<in>set (fst (render E sc st)).
      a < length (renderModels (snd (render E sc st))) \<and>
      ?Q (renderModels (snd (render E sc st)) ! a)" if "cache_valid st"
  proof (rule render_pushed_invariant [where Q = ?Q, OF that])
    fix s l t B
    assume "(s, l, t) \<in> set (jobs sc)"
    then show "?Q (shade_and_round sc l s B)"
      using shade_and_round_shaded [of sc l s B] by force
  next
    fix rm t
    assume "?Q rm"
    then obtain j rd where j: "j \<in> set (jobs sc)" and "shaded_by sc (fst (snd j)) (fst j) rd rm"
      by blast
    then have "shaded_by sc (fst (snd j)) (fst j) rd
        (RenderModel_update E rm t (frame_projection E sc st) (frame_viewport E sc st))"
      by (rule_tac shaded_by_update)
    then show "?Q (RenderModel_update E rm t (frame_projection E sc st) (frame_viewport E sc st))"
      using j by blast
  qed
  have render: "\<forall>a\<in>set (fst (render E sc st)).
         \<exists>j\<in>set (jobs sc). \<exists>rd.
            shaded_by sc (fst (snd j)) (fst j) rd (renderModels (snd (render E sc st)) ! a) \<and>
            (fill (renderModels (snd (render E sc st)) ! a) \<noteq> None
               \<longleftrightarrow> fillMaterial (fst j) \<noteq> None) \<and>
            (stroke (renderModels (snd (render E sc st)) ! a) \<noteq> None
               \<longleftrightarrow> strokeMaterial (fst j) \<noteq> None)" if "cache_valid st"
  proof
    fix a assume "a \<in> set (fst (render E sc st))"
    with all [OF that] obtain j rd where j: "j \<in> set (jobs sc)"
      and sb: "shaded_by sc (fst (snd j)) (fst j) rd (renderModels (snd (render E sc st)) ! a)"
      by blast
    show "\<exists>j\<in>set (jobs sc). \<exists>rd.
            shaded_by sc (fst (snd j)) (fst j) rd (renderModels (snd (render E sc st)) ! a) \<and>
            (fill (renderModels (snd (render E sc st)) ! a) \<noteq> None
               \<longleftrightarrow> fillMaterial (fst j) \<noteq> None) \<and>
            (stroke (renderModels (snd (render E sc st)) ! a) \<noteq> None
               \<longleftrightarrow> strokeMaterial (fst j) \<noteq> None)"
      using j sb shaded_by_present [OF sb] by blast
  qed
  show ?thesis
    using visit sh [unfolded shaded_by_def] shaded_by_present [OF sh] render
    by blast
qed

theorem shading_of_visible_models_witness:
  "cache_valid example_store \<and>
   fst (render example_externals example_scene example_store) = [1, 0] \<and>
   fill (renderModels (snd (render example_externals example_scene example_store)) ! 0) = Some 16 \<and>
   stroke (renderModels (snd (render example_externals example_scene example_store)) ! 0) = None \<and>
   fillMaterial near_surface \<noteq> None \<and> strokeMaterial near_surface = None \<and>
   (\<exists>j\<in>set (jobs example_scene).
      (fill (renderModels (snd (render example_externals example_scene example_store)) ! 0) \<noteq> None
         \<longleftrightarrow> fillMaterial (fst j) \<noteq> None) \<and>
      (stroke (renderModels (snd (render example_externals example_scene example_store)) ! 0) \<noteq> None
         \<longleftrightarrow> strokeMaterial (fst j) \<noteq> None))"
proof -
  have "0 \<in> set (fst (render example_externals example_scene example_store))"
    by (simp add: example_render_output)
  with shading_of_visible_models [of example_store example_externals example_scene]
    example_store_ok(2)
  have "\<exists>j\<in>set (jobs example_scene).
      (fill (renderModels (snd (render example_externals example_scene example_store)) ! 0) \<noteq> None
         \<longleftrightarrow> fillMaterial (fst j) \<noteq> None) \<and>
      (stroke (renderModels (snd (render example_externals example_scene example_store)) ! 0) \<noteq> None
         \<longleftrightarrow> strokeMaterial (fst j) \<noteq> None)"
    by blast
  then show ?thesis
    by (simp add: example_store_ok example_render_output example_render_store)
      (simp add: near_surface_def)
qed

subsection \<open>One cache slot per surface\<close>

text \<open>
  C8. The cache maps a surface id to at most one render model and different ids to
  different render models, before and after every \<open>render\<close>, and \<open>render\<close> never
  replaces a slot. With the cache on, \<open>render\<close> creates exactly one render model for
  each visited surface id that had no slot and none for the others; every visit of a
  surface resolves to the slot of its id, so two visits of one id get the same
  reference; and when \<open>render\<close> returns, the slot holds the transform and the geometry of
  the last visit of its id: a later visit has overwritten what an earlier one left.
\<close>

theorem cache_one_slot_per_surface:
  assumes valid: "cache_valid st" and inj: "cache_inj st"
  shows "cache_valid (snd (render E sc st)) \<and> cache_inj (snd (render E sc st)) \<and>
     (\<forall>k a. renderModelCache st k = Some a \<longrightarrow>
        renderModelCache (snd (render E sc st)) k = Some a) \<and>
     (cache sc \<longrightarrow>
        length (renderModels (snd (render E sc st))) =
          length (renderModels st) +
          card ((\<lambda>j. surface_id (fst j)) ` set (jobs sc) - dom (renderModelCache st)) \<and>
        (\<forall>i<length (jobs sc).
           renderModelCache (snd (render E sc st)) (surface_id (fst (jobs sc ! i)))
             = Some (fst (render_trace E sc st ! i))) \<and>
        (\<forall>i j. i < length (jobs sc) \<and> j < length (jobs sc) \<and>
           surface_id (fst (jobs sc ! i)) = surface_id (fst (jobs sc ! j)) \<longrightarrow>
           fst (render_trace E sc st ! i) = fst (render_trace E sc st ! j)) \<and>
        (\<forall>n. n < length (jobs sc) \<and>
           (\<forall>m. n < m \<and> m < length (jobs sc) \<longrightarrow>
              surface_id (fst (jobs sc ! m)) \<noteq> surface_id (fst (jobs sc ! n))) \<longrightarrow>
           rm_transform (renderModels (snd (render E sc st)) ! fst (render_trace E sc st ! n))
             = snd (snd (jobs sc ! n)) \<and>
           transformed (renderModels (snd (render E sc st)) ! fst (render_trace E sc st ! n))
             = fst (geometry E
                 (rm_surface (renderModels (snd (render E sc st)) ! fst (render_trace E sc st ! n)))
                 (snd (snd (jobs sc ! n))) (frame_projection E sc st) (frame_viewport E sc st)) \<and>
           inFrustrum (renderModels (snd (render E sc st)) ! fst (render_trace E sc st ! n))
             = snd (snd (geometry E
                 (rm_surface (renderModels (snd (render E sc st)) ! fst (render_trace E sc st ! n)))
                 (snd (snd (jobs sc ! n))) (frame_projection E sc st) (frame_viewport E sc st)))))"
proof -
  let ?st' = "snd (render E sc st)" and ?tr = "render_trace E sc st"
  let ?p = "frame_projection E sc st" and ?v = "frame_viewport E sc st"
  have A: "cache_valid ?st'" "cache_inj ?st'"
    by (rule render_valid [OF valid], rule render_inj [OF valid inj])
  have B: "\<forall>k a. renderModelCache st k = Some a \<longrightarrow> renderModelCache ?st' k = Some a"
    using render_valid(2) [OF valid, of E sc] by (simp add: extends_def)
  have vX: "cache_valid (frame_store E sc st)"
    by (simp add: frame_store_valid valid)
  have C: "length (renderModels ?st') =
          length (renderModels st) +
          card ((\<lambda>j. surface_id (fst j)) ` set (jobs sc) - dom (renderModelCache st))"
    if c: "cache sc"
    using run_allocations [OF c vX, of E ?p ?v "[]" "jobs sc"] by (simp add: render_store)
  have D: "renderModelCache ?st' (surface_id (fst (jobs sc ! i))) = Some (fst (?tr ! i))"
    if c: "cache sc" and i: "i < length (jobs sc)" for i
    using trace_slots [OF c vX i, of E ?p ?v] by (simp add: render_store render_trace_def)
  have F: "fst (?tr ! i) = fst (?tr ! j)"
    if c: "cache sc" and "i < length (jobs sc)" "j < length (jobs sc)"
      "surface_id (fst (jobs sc ! i)) = surface_id (fst (jobs sc ! j))" for i j
    using D [OF c that(2)] D [OF c that(3)] that(4) by simp
  have G: "rm_transform (renderModels ?st' ! fst (?tr ! n)) = snd (snd (jobs sc ! n)) \<and>
      transformed (renderModels ?st' ! fst (?tr ! n))
        = fst (geometry E (rm_surface (renderModels ?st' ! fst (?tr ! n)))
                 (snd (snd (jobs sc ! n))) ?p ?v) \<and>
      inFrustrum (renderModels ?st' ! fst (?tr ! n))
        = snd (snd (geometry E (rm_surface (renderModels ?st' ! fst (?tr ! n)))
                 (snd (snd (jobs sc ! n))) ?p ?v))"
    if c: "cache sc" and n: "n < length (jobs sc)"
      and last: "\<forall>m. n < m \<and> m < length (jobs sc) \<longrightarrow>
              surface_id (fst (jobs sc ! m)) \<noteq> surface_id (fst (jobs sc ! n))" for n
  proof -
    from render_last_visit [OF c valid inj n last, of E]
    obtain B where b: "built_ok E ?p ?v B" "rm_transform B = snd (snd (jobs sc ! n))"
      and fin: "renderModels ?st' ! fst (?tr ! n)
        = settle sc (fst (snd (jobs sc ! n))) (fst (jobs sc ! n)) B"
      by blast
    show ?thesis
      using b by (simp add: fin built_ok_def)
  qed
  show ?thesis
    using A B C D F G by blast
qed

theorem cache_one_slot_per_surface_witness:
  "cache_valid example_store \<and> cache_inj example_store \<and> cache twice_scene \<and>
   surface_id (fst (jobs twice_scene ! 0)) = surface_id (fst (jobs twice_scene ! 1)) \<and>
   fst (render_trace example_externals twice_scene example_store ! 0) = 0 \<and>
   fst (render_trace example_externals twice_scene example_store ! 1) = 0 \<and>
   renderModelCache (snd (render example_externals twice_scene example_store)) 1 = Some 0 \<and>
   length (renderModels (snd (render example_externals twice_scene example_store))) = 1 \<and>
   rm_transform (renderModels (snd (render example_externals twice_scene example_store)) ! 0)
     = pt (1/4) 0 (1/4)"
proof -
  have c: "cache twice_scene"
    by (simp add: twice_scene_def)
  note t = cache_one_slot_per_surface [OF example_store_ok(2,3), of example_externals twice_scene]
  have n: "(1::nat) < length (jobs twice_scene)"
    by (simp add: twice_jobs)
  have last: "\<forall>m. 1 < m \<and> m < length (jobs twice_scene) \<longrightarrow>
      surface_id (fst (jobs twice_scene ! m)) \<noteq> surface_id (fst (jobs twice_scene ! 1))"
    by (simp add: twice_jobs)
  have "rm_transform (renderModels (snd (render example_externals twice_scene example_store))
          ! fst (render_trace example_externals twice_scene example_store ! 1))
        = snd (snd (jobs twice_scene ! 1))"
    using t c n last by blast
  then have "rm_transform (renderModels (snd (render example_externals twice_scene example_store)) ! 0)
     = pt (1/4) 0 (1/4)"
    by (simp add: twice_trace twice_jobs)
  then show ?thesis
    using c by (simp add: example_store_ok twice_trace twice_jobs twice_render)
qed

subsection \<open>Camera and viewport are left alone\<close>

text \<open>
  C9. Composing the projection works on a new matrix object: the reference that the
  composition returns is none of the store's, and after \<open>render\<close> every matrix that
  existed before holds the value it held before, in particular the camera's matrix, the
  camera's projection and the viewport's prescale and postscale.
\<close>

theorem render_keeps_matrices:
  "fst (compose_projection E sc st) = length (matrices st) \<and>
   (\<forall>a. a < length (matrices st) \<longrightarrow> matrices (snd (render E sc st)) ! a = matrices st ! a) \<and>
   (matrices_ok sc st \<longrightarrow>
      matrices (snd (render E sc st)) ! cam_m (camera sc) = matrices st ! cam_m (camera sc) \<and>
      matrices (snd (render E sc st)) ! cam_projection (camera sc)
        = matrices st ! cam_projection (camera sc) \<and>
      matrices (snd (render E sc st)) ! prescale (viewport sc)
        = matrices st ! prescale (viewport sc) \<and>
      matrices (snd (render E sc st)) ! postscale (viewport sc)
        = matrices st ! postscale (viewport sc))"
  by (simp add: render_matrices matrices_ok_def compose_projection_def Matrix_copy_def)

theorem render_keeps_matrices_witness:
  "matrices_ok example_scene example_store \<and>
   matrices example_store ! cam_m (camera example_scene) = pt 0 0 (1/8) \<and>
   matrices (snd (render example_externals example_scene example_store))
     ! cam_m (camera example_scene) = pt 0 0 (1/8) \<and>
   matrices (snd (render example_externals example_scene example_store))
     ! prescale (viewport example_scene) = pt (1/8) 0 0"
proof -
  note t = render_keeps_matrices [of example_externals example_scene example_store]
  have "matrices (snd (render example_externals example_scene example_store))
         ! cam_m (camera example_scene) = matrices example_store ! cam_m (camera example_scene)"
    and "matrices (snd (render example_externals example_scene example_store))
         ! prescale (viewport example_scene) = matrices example_store ! prescale (viewport example_scene)"
    using t example_store_ok(1) by blast+
  then show ?thesis
    by (simp add: example_store_ok) (simp add: example_scene_def example_store_def)
qed

subsection \<open>Aliased entries in the output\<close>

text \<open>
  C10. With the cache on, when two visits of one surface id both pass the visibility
  test, they push the same reference, so the list that \<open>render\<close> returns holds that
  reference at least twice: entries that are one render model. When \<open>render\<close> returns,
  that render model holds the transform and the frame's matrices of the last visit of
  its id, and the geometry derived from them for its surface, the projected points
  rounded if that last visit passed the test and \<open>fractionalPoints\<close> is off.
\<close>

theorem aliased_output_entries:
  assumes c: "cache sc" and valid: "cache_valid st" and inj: "cache_inj st"
    and ij: "i < j" "j < length (jobs sc)"
    and same: "surface_id (fst (jobs sc ! i)) = surface_id (fst (jobs sc ! j))"
    and pass: "snd (render_trace E sc st ! i)" "snd (render_trace E sc st ! j)"
  shows "fst (render_trace E sc st ! i) = fst (render_trace E sc st ! j) \<and>
     2 \<le> count_list (fst (render E sc st)) (fst (render_trace E sc st ! i)) \<and>
     (\<forall>n. n < length (jobs sc) \<and>
        surface_id (fst (jobs sc ! n)) = surface_id (fst (jobs sc ! i)) \<and>
        (\<forall>m. n < m \<and> m < length (jobs sc) \<longrightarrow>
           surface_id (fst (jobs sc ! m)) \<noteq> surface_id (fst (jobs sc ! i))) \<longrightarrow>
        (case geometry E
                (rm_surface (renderModels (snd (render E sc st)) ! fst (render_trace E sc st ! i)))
                (snd (snd (jobs sc ! n))) (frame_projection E sc st) (frame_viewport E sc st) of
           (tr, pr, fr) \<Rightarrow>
             rm_transform (renderModels (snd (render E sc st)) ! fst (render_trace E sc st ! i))
               = snd (snd (jobs sc ! n)) \<and>
             rm_projection (renderModels (snd (render E sc st)) ! fst (render_trace E sc st ! i))
               = frame_projection E sc st \<and>
             rm_viewport (renderModels (snd (render E sc st)) ! fst (render_trace E sc st ! i))
               = frame_viewport E sc st \<and>
             transformed (renderModels (snd (render E sc st)) ! fst (render_trace E sc st ! i))
               = tr \<and>
             inFrustrum (renderModels (snd (render E sc st)) ! fst (render_trace E sc st ! i))
               = fr \<and>
             normal (projected (renderModels (snd (render E sc st))
                ! fst (render_trace E sc st ! i))) = normal pr \<and>
             barycenter (projected (renderModels (snd (render E sc st))
                ! fst (render_trace E sc st ! i))) = barycenter pr \<and>
             points (projected (renderModels (snd (render E sc st))
                ! fst (render_trace E sc st ! i)))
               = (if snd (render_trace E sc st ! n) \<and> \<not> fractionalPoints sc
                  then map Point_round (points pr) else points pr)))"
proof -
  let ?st' = "snd (render E sc st)" and ?tr = "render_trace E sc st"
  let ?p = "frame_projection E sc st" and ?v = "frame_viewport E sc st"
  have vX: "cache_valid (frame_store E sc st)"
    by (simp add: frame_store_valid valid)
  have len: "length ?tr = length (jobs sc)"
    by (simp add: render_trace_def)
  have slot: "renderModelCache ?st' (surface_id (fst (jobs sc ! k))) = Some (fst (?tr ! k))"
    if "k < length (jobs sc)" for k
    using trace_slots [OF c vX that, of E ?p ?v] by (simp add: render_store render_trace_def)
  have i: "i < length (jobs sc)"
    using ij by simp
  have A: "fst (?tr ! i) = fst (?tr ! j)"
    using slot [OF i] slot [OF ij(2)] same by simp
  have "2 \<le> count_list (map fst (filter snd ?tr)) (fst (?tr ! i))"
  proof (rule count_list_twice [OF ij(1)])
    show "j < length ?tr" using ij(2) by (simp add: len)
    show "?tr ! i = (fst (?tr ! i), True)" using pass(1) by (simp add: prod_eq_iff)
    show "?tr ! j = (fst (?tr ! i), True)" using pass(2) A by (simp add: prod_eq_iff)
  qed
  moreover have "mset (fst (render E sc st)) = mset (map fst (filter snd ?tr))"
    by (subst render_trace_output) (simp only: Array_sort_mset)
  then have "count_list (fst (render E sc st)) (fst (?tr ! i))
      = count_list (map fst (filter snd ?tr)) (fst (?tr ! i))"
    by (rule mset_eq_count_list)
  ultimately have B: "2 \<le> count_list (fst (render E sc st)) (fst (?tr ! i))"
    by simp
  have C: "case geometry E (rm_surface (renderModels ?st' ! fst (?tr ! i)))
                (snd (snd (jobs sc ! n))) ?p ?v of
           (tr, pr, fr) \<Rightarrow>
             rm_transform (renderModels ?st' ! fst (?tr ! i)) = snd (snd (jobs sc ! n)) \<and>
             rm_projection (renderModels ?st' ! fst (?tr ! i)) = ?p \<and>
             rm_viewport (renderModels ?st' ! fst (?tr ! i)) = ?v \<and>
             transformed (renderModels ?st' ! fst (?tr ! i)) = tr \<and>
             inFrustrum (renderModels ?st' ! fst (?tr ! i)) = fr \<and>
             normal (projected (renderModels ?st' ! fst (?tr ! i))) = normal pr \<and>
             barycenter (projected (renderModels ?st' ! fst (?tr ! i))) = barycenter pr \<and>
             points (projected (renderModels ?st' ! fst (?tr ! i)))
               = (if snd (?tr ! n) \<and> \<not> fractionalPoints sc
                  then map Point_round (points pr) else points pr)"
    if n: "n < length (jobs sc)"
      and sid: "surface_id (fst (jobs sc ! n)) = surface_id (fst (jobs sc ! i))"
      and last: "\<forall>m. n < m \<and> m < length (jobs sc) \<longrightarrow>
           surface_id (fst (jobs sc ! m)) \<noteq> surface_id (fst (jobs sc ! i))" for n
  proof -
    have a: "fst (?tr ! n) = fst (?tr ! i)"
      using slot [OF n] slot [OF i] sid by simp
    have last': "\<forall>m. n < m \<and> m < length (jobs sc) \<longrightarrow>
           surface_id (fst (jobs sc ! m)) \<noteq> surface_id (fst (jobs sc ! n))"
      using last sid by simp
    from render_last_visit [OF c valid inj n last', of E]
    obtain B where b: "built_ok E ?p ?v B" "rm_transform B = snd (snd (jobs sc ! n))"
      and vis: "is_visible sc (fst (jobs sc ! n)) B = snd (?tr ! n)"
      and fin: "renderModels ?st' ! fst (?tr ! i)
        = settle sc (fst (snd (jobs sc ! n))) (fst (jobs sc ! n)) B"
      unfolding a by blast
    have g: "geometry E (rm_surface B) (snd (snd (jobs sc ! n))) ?p ?v
        = (transformed B, projected B, inFrustrum B)"
      and pv: "rm_projection B = ?p" "rm_viewport B = ?v"
      using b by (simp_all add: built_ok_def)
    show ?thesis
      unfolding fin
      by (simp add: g pv b(2) settle_points vis)
  qed
  show ?thesis
    apply (intro conjI allI impI)
      apply (rule A)
     apply (rule B)
    apply (rule C)
      apply simp_all
    done
qed

theorem aliased_output_entries_witness:
  "cache twice_scene \<and> cache_valid example_store \<and> cache_inj example_store \<and>
   surface_id (fst (jobs twice_scene ! 0)) = surface_id (fst (jobs twice_scene ! 1)) \<and>
   render_trace example_externals twice_scene example_store = [(0, True), (0, True)] \<and>
   fst (render example_externals twice_scene example_store) = [0, 0] \<and>
   2 \<le> count_list (fst (render example_externals twice_scene example_store)) 0 \<and>
   rm_transform (renderModels (snd (render example_externals twice_scene example_store)) ! 0)
     = pt (1/4) 0 (1/4)"
proof -
  have c: "cache twice_scene"
    by (simp add: twice_scene_def)
  have ij: "(0::nat) < 1" "1 < length (jobs twice_scene)"
    by (simp_all add: twice_jobs)
  have same: "surface_id (fst (jobs twice_scene ! 0)) = surface_id (fst (jobs twice_scene ! 1))"
    by (simp add: twice_jobs)
  have pass: "snd (render_trace example_externals twice_scene example_store ! 0)"
    "snd (render_trace example_externals twice_scene example_store ! 1)"
    by (simp_all add: twice_trace)
  note t = aliased_output_entries [OF c example_store_ok(2,3) ij same pass]
  have "2 \<le> count_list (fst (render example_externals twice_scene example_store))
      (fst (render_trace example_externals twice_scene example_store ! 0))"
    using t by blast
  then have "2 \<le> count_list (fst (render example_externals twice_scene example_store)) 0"
    by (simp add: twice_trace)
  then show ?thesis
    using c same by (simp add: example_store_ok twice_trace twice_render)
qed

end
